(* ===== verification/Prelude.thy ===== *)
theory Prelude
  imports Main "HOL-Library.State_Monad" "HOL-Library.Sublist"
begin

text \<open>
  Shared vocabulary of the development: the pieces of the Go language and of its standard
  library the operator uses (byte strings, \<open>strings\<close>, nil-able maps), the computations
  with effects, and the small logic the component theories use to reason about them.

  A computation has type \<open>('e list, 'a) state\<close>: it reads and extends the history of the
  calls made to the outside world (the Kubernetes API server, OpenStack, the operating system).
  \<^emph>\<open>emits m Q\<close> says that, from every history, \<open>m\<close> only appends to it, and that the
  returned value and the appended events satisfy \<open>Q\<close>; its rules are collected under
  \<open>emits_rules\<close>. The locale \<open>trace_prop\<close> lifts a predicate on traces that is
  closed under concatenation from the calls of a computation to the whole computation. \<open>wp\<close> runs
  a computation symbolically, where it matters what it does and not only what it avoids.
\<close>

named_theorems emits_rules \<open>compositional rules for emitted events\<close>
named_theorems call_rules \<open>what the calls to the outside world emit\<close>

section \<open>Go strings\<close>

fun strings_Contains :: "string \<Rightarrow> string \<Rightarrow> bool" where
  "strings_Contains [] sub = (sub = [])"
| "strings_Contains (c # s) sub = (prefix sub (c # s) \<or> strings_Contains s sub)"

definition strings_HasPrefix :: "string \<Rightarrow> string \<Rightarrow> bool" where
  "strings_HasPrefix s p = prefix p s"

definition strings_HasSuffix :: "string \<Rightarrow> string \<Rightarrow> bool" where
  "strings_HasSuffix s p = suffix p s"

fun strings_Index :: "string \<Rightarrow> string \<Rightarrow> nat option" where
  "strings_Index [] sub = (if sub = [] then Some 0 else None)"
| "strings_Index (c # s) sub =
     (if prefix sub (c # s) then Some 0 else map_option Suc (strings_Index s sub))"

text \<open>
  \<open>strings.Split\<close> for a non-empty separator cuts at the leftmost occurrence and goes on
  behind it. The operator never splits by the empty separator; there each byte is a part.
\<close>

function strings_Split :: "string \<Rightarrow> string \<Rightarrow> string list" where
  "strings_Split s sep =
     (if sep = [] then map (\<lambda>c. [c]) s
      else case strings_Index s sep of
             None \<Rightarrow> [s]
           | Some m \<Rightarrow> take m s # strings_Split (drop (m + length sep) s) sep)"
  by pat_completeness auto

lemma strings_Index_Some:
  "strings_Index s sub = Some m \<Longrightarrow> m + length sub \<le> length s \<and> prefix sub (drop m s)"
proof (induction s arbitrary: m)
  case Nil
  then show ?case by (auto split: if_splits)
next
  case (Cons c s)
  then show ?case by (auto split: if_splits dest: prefix_length_le)
qed

termination strings_Split
proof (relation "measure (\<lambda>(s, sep). length s)")
  fix s sep :: string and m :: nat
  assume "sep \<noteq> []" and "strings_Index s sep = Some m"
  then show "((drop (m + length sep) s, sep), s, sep) \<in> measure (\<lambda>(s, sep). length s)"
    using strings_Index_Some [of s sep m] by (cases s) auto
qed simp

declare strings_Split.simps [simp del]

text \<open>\<open>strings.ToLower\<close> on ASCII bytes.\<close>

definition char_ToLower :: "char \<Rightarrow> char" where
  "char_ToLower c =
     (if 65 \<le> (of_char c :: nat) \<and> (of_char c :: nat) \<le> 90 then char_of (of_char c + 32 :: nat) else c)"

definition strings_ToLower :: "string \<Rightarrow> string" where
  "strings_ToLower s = map char_ToLower s"

lemma strings_Contains_sublist: "strings_Contains s sub \<longleftrightarrow> sublist sub s"
  by (induction s sub rule: strings_Contains.induct) (auto simp: sublist_Cons_right)

lemma strings_Contains_refl [simp]: "strings_Contains s s"
  by (simp add: strings_Contains_sublist)

lemma strings_Contains_append1: "strings_Contains s sub \<Longrightarrow> strings_Contains (s @ t) sub"
  by (simp add: strings_Contains_sublist sublist_append)

lemma strings_Contains_append2: "strings_Contains t sub \<Longrightarrow> strings_Contains (s @ t) sub"
  by (simp add: strings_Contains_sublist sublist_append)

lemma strings_Contains_infix: "strings_Contains (p @ s @ q) s"
  by (simp add: strings_Contains_sublist)

lemma strings_Index_None: "strings_Index s sub = None \<longleftrightarrow> \<not> strings_Contains s sub"
  by (induction s) auto

lemma strings_Index_prefix: "prefix sub s \<Longrightarrow> strings_Index s sub = Some 0"
  by (cases s) auto

lemma strings_Split_prefix:
  "sep \<noteq> [] \<Longrightarrow> strings_Split (sep @ s) sep = [] # strings_Split s sep"
  by (simp add: strings_Split.simps [of "sep @ s"] strings_Index_prefix)

lemma strings_Split_single:
  "sep \<noteq> [] \<Longrightarrow> \<not> strings_Contains s sep \<Longrightarrow> strings_Split s sep = [s]"
  by (simp add: strings_Split.simps [of s] strings_Index_None [THEN iffD2])

lemma strings_Split_length_ge2:
  assumes "sep \<noteq> []" and "strings_Contains s sep"
  shows "2 \<le> length (strings_Split s sep)"
proof -
  from assms obtain m where m: "strings_Index s sep = Some m"
    using strings_Index_None [of s sep] by auto
  have ne: "strings_Split t sep \<noteq> []" for t
    using assms(1) by (subst strings_Split.simps) (simp split: option.split)
  with m assms(1) show ?thesis
    by (subst strings_Split.simps) (simp add: Suc_le_eq)
qed

section \<open>Go maps\<close>

text \<open>
  A \<open>map[string]string\<close> is a partial function, or \<^term>\<open>None\<close> for the nil map. Reading a
  missing key, or any key of the nil map, gives the zero value; writing to the nil map panics, so
  \<open>gmap_put\<close> is only applied after \<open>gmap_make\<close> (the operator's nil checks).
\<close>

type_synonym gmap = "(string \<rightharpoonup> string) option"

definition gmap_lookup :: "gmap \<Rightarrow> string \<Rightarrow> string option" where
  "gmap_lookup m k = (case m of None \<Rightarrow> None | Some f \<Rightarrow> f k)"

definition gmap_index :: "gmap \<Rightarrow> string \<Rightarrow> string" where
  "gmap_index m k = (case gmap_lookup m k of None \<Rightarrow> [] | Some v \<Rightarrow> v)"

definition gmap_make :: "gmap \<Rightarrow> (string \<rightharpoonup> string)" where
  "gmap_make m = (case m of None \<Rightarrow> Map.empty | Some f \<Rightarrow> f)"

definition gmap_put :: "(string \<rightharpoonup> string) \<Rightarrow> (string \<times> string) list \<Rightarrow> (string \<rightharpoonup> string)" where
  "gmap_put f kvs = fold (\<lambda>(k, v) g. g(k \<mapsto> v)) kvs f"

lemma gmap_put_map_of: "distinct (map fst kvs) \<Longrightarrow> gmap_put f kvs = f ++ map_of kvs"
proof (induction kvs arbitrary: f)
  case Nil
  then show ?case by (simp add: gmap_put_def)
next
  case (Cons kv kvs)
  obtain k v where kv: "kv = (k, v)" by (cases kv)
  with Cons.prems have "map_of kvs k = None"
    by (auto simp: map_of_eq_None_iff)
  with Cons kv show ?case
    by (auto simp: gmap_put_def map_add_def fun_eq_iff split: option.split)
qed

lemma gmap_index_make: "gmap_index (Some (gmap_make m)) k = gmap_index m k"
  by (simp add: gmap_index_def gmap_lookup_def gmap_make_def split: option.split)

section \<open>Searching a list\<close>

lemma find_append_first: "P x \<Longrightarrow> (\<forall>y \<in> set ys. \<not> P y) \<Longrightarrow> List.find P (ys @ x # zs) = Some x"
  by (induction ys) auto

lemma find_Some_split:
  "List.find P xs = Some x \<longleftrightarrow> (\<exists>ys zs. xs = ys @ x # zs \<and> P x \<and> (\<forall>y \<in> set ys. \<not> P y))"
proof
  show "List.find P xs = Some x \<Longrightarrow> \<exists>ys zs. xs = ys @ x # zs \<and> P x \<and> (\<forall>y \<in> set ys. \<not> P y)"
  proof (induction xs)
    case (Cons a xs)
    show ?case
    proof (cases "P a")
      case True
      with Cons.prems show ?thesis by (intro exI [of _ "[]"] exI [of _ xs]) simp
    next
      case False
      with Cons obtain ys zs where "xs = ys @ x # zs \<and> P x \<and> (\<forall>y \<in> set ys. \<not> P y)" by auto
      with False show ?thesis by (intro exI [of _ "a # ys"] exI [of _ zs]) simp
    qed
  qed simp
qed (auto intro: find_append_first)

section \<open>Computations and the events they emit\<close>

abbreviation ret :: "'a \<Rightarrow> ('s, 'a) state" where
  "ret \<equiv> State_Monad.return"

text \<open>A call to the outside world: the answer may depend on everything that happened before.\<close>

definition call :: "('e list \<Rightarrow> 'a) \<Rightarrow> ('a \<Rightarrow> 'e) \<Rightarrow> ('e list, 'a) state" where
  "call f ev = State (\<lambda>h. (f h, h @ [ev (f h)]))"

lemma run_call [simp]: "run_state (call f ev) h = (f h, h @ [ev (f h)])"
  by (simp add: call_def)

text \<open>A loop over a slice that threads its local variables.\<close>

fun foldM :: "('b \<Rightarrow> 'a \<Rightarrow> ('s, 'b) state) \<Rightarrow> 'b \<Rightarrow> 'a list \<Rightarrow> ('s, 'b) state" where
  "foldM f acc [] = ret acc"
| "foldM f acc (x # xs) = do { acc' \<leftarrow> f acc x; foldM f acc' xs }"

lemma bind_eqI: "(\<And>a. f a = g a) \<Longrightarrow> State_Monad.bind m f = State_Monad.bind m g"
  by presburger

definition emits :: "('e list, 'a) state \<Rightarrow> ('a \<Rightarrow> 'e list \<Rightarrow> bool) \<Rightarrow> bool" where
  "emits m Q \<longleftrightarrow> (\<forall>h. \<exists>ev. snd (run_state m h) = h @ ev \<and> Q (fst (run_state m h)) ev)"

lemma emitsI:
  "(\<And>h. \<exists>ev. snd (run_state m h) = h @ ev \<and> Q (fst (run_state m h)) ev) \<Longrightarrow> emits m Q"
  by (simp add: emits_def)

lemma emitsD:
  assumes "emits m Q" and "run_state m h = (a, h')"
  obtains ev where "h' = h @ ev" and "Q a ev"
  using assms unfolding emits_def by (metis fst_conv snd_conv)

lemma emits_weaken:
  "emits m Q \<Longrightarrow> (\<And>a ev. Q a ev \<Longrightarrow> R a ev) \<Longrightarrow> emits m R"
  unfolding emits_def by blast

lemma emits_return [emits_rules]: "Q a [] \<Longrightarrow> emits (ret a) Q"
  by (simp add: emits_def)

lemma emits_call: "(\<And>a. Q a [ev a]) \<Longrightarrow> emits (call f ev) Q"
  by (simp add: emits_def)

lemma emits_bind:
  assumes "emits m (\<lambda>a e1. emits (f a) (\<lambda>b e2. Q b (e1 @ e2)))"
  shows "emits (m \<bind> f) Q"
proof (rule emitsI)
  fix h
  from assms obtain e1 where e1: "snd (run_state m h) = h @ e1"
    and k: "emits (f (fst (run_state m h))) (\<lambda>b e2. Q b (e1 @ e2))"
    unfolding emits_def by blast
  from k obtain e2 where "snd (run_state (f (fst (run_state m h))) (h @ e1)) = (h @ e1) @ e2"
    and "Q (fst (run_state (f (fst (run_state m h))) (h @ e1))) (e1 @ e2)"
    unfolding emits_def by blast
  with e1 show "\<exists>ev. snd (run_state (m \<bind> f) h) = h @ ev \<and> Q (fst (run_state (m \<bind> f) h)) ev"
    by (auto simp: split_beta)
qed

lemma emits_bind_weaken:
  assumes "emits m Q1" and "\<And>a e1. Q1 a e1 \<Longrightarrow> emits (f a) (\<lambda>b e2. Q b (e1 @ e2))"
  shows "emits (m \<bind> f) Q"
  by (rule emits_bind) (rule emits_weaken [OF assms])

lemma emits_conj: "emits m Q \<Longrightarrow> emits m R \<Longrightarrow> emits m (\<lambda>a ev. Q a ev \<and> R a ev)"
  unfolding emits_def by (metis same_append_eq)

text \<open>What a computation returns, whatever it emits.\<close>

definition returns :: "('s, 'a) state \<Rightarrow> ('a \<Rightarrow> bool) \<Rightarrow> bool" where
  "returns m R \<longleftrightarrow> (\<forall>h. R (fst (run_state m h)))"

lemma returns_return: "R a \<Longrightarrow> returns (ret a) R"
  by (simp add: returns_def)

lemma returns_bind: "(\<And>a. returns (f a) R) \<Longrightarrow> returns (m \<bind> f) R"
  by (simp add: returns_def split_beta)

lemma returns_bind_strong:
  "returns m S \<Longrightarrow> (\<And>a. S a \<Longrightarrow> returns (f a) R) \<Longrightarrow> returns (m \<bind> f) R"
  by (simp add: returns_def split_beta)

lemma returns_if: "(b \<Longrightarrow> returns m R) \<Longrightarrow> (\<not> b \<Longrightarrow> returns n R) \<Longrightarrow> returns (if b then m else n) R"
  by simp

lemma returns_case_option:
  "returns m R \<Longrightarrow> (\<And>x. returns (f x) R) \<Longrightarrow> returns (case opt of None \<Rightarrow> m | Some x \<Rightarrow> f x) R"
  by (simp split: option.split)

lemma returns_case_sum:
  "(\<And>x. returns (f x) R) \<Longrightarrow> (\<And>x. returns (g x) R) \<Longrightarrow>
     returns (case s of Inl x \<Rightarrow> f x | Inr x \<Rightarrow> g x) R"
  by (simp split: sum.split)

lemma returns_case_prod:
  "(\<And>x y. returns (f x y) R) \<Longrightarrow> returns (case p of (x, y) \<Rightarrow> f x y) R"
  by (simp split: prod.split)

lemma returns_let: "returns (f a) R \<Longrightarrow> returns (Let a f) R"
  by simp

lemmas returns_intros =
  returns_return returns_bind returns_if returns_case_option returns_case_sum returns_case_prod
  returns_let

lemma returnsD: "returns m R \<Longrightarrow> run_state m h = (a, h') \<Longrightarrow> R a"
  unfolding returns_def by (metis fst_conv)

lemma emits_returns: "emits m Q \<Longrightarrow> returns m R \<Longrightarrow> emits m (\<lambda>a ev. Q a ev \<and> R a)"
  unfolding emits_def returns_def by blast

section \<open>Running a computation\<close>

text \<open>\<open>wp m Q h\<close>: from the history \<open>h\<close>, the result and the new history of \<open>m\<close> satisfy \<open>Q\<close>.\<close>

definition wp :: "('s, 'a) state \<Rightarrow> ('a \<Rightarrow> 's \<Rightarrow> bool) \<Rightarrow> 's \<Rightarrow> bool" where
  "wp m Q h = (case run_state m h of (a, h') \<Rightarrow> Q a h')"

lemma wp_return [simp]: "wp (ret a) Q h = Q a h"
  by (simp add: wp_def)

lemma wp_bind [simp]: "wp (m \<bind> f) Q h = wp m (\<lambda>a. wp (f a) Q) h"
  by (simp add: wp_def split_beta)

lemma wp_call [simp]: "wp (call f ev) Q h = Q (f h) (h @ [ev (f h)])"
  by (simp add: wp_def)

lemma wp_mono: "wp m Q h \<Longrightarrow> (\<And>a h'. Q a h' \<Longrightarrow> R a h') \<Longrightarrow> wp m R h"
  by (auto simp: wp_def)

lemma wp_seq: "wp m Q h \<Longrightarrow> (\<And>a h'. Q a h' \<Longrightarrow> wp (f a) R h') \<Longrightarrow> wp (m \<bind> f) R h"
  by (auto simp: wp_def split_beta)

lemma wp_after: "run_state m h = (a, h') \<Longrightarrow> wp (f a) Q h' \<Longrightarrow> wp (m \<bind> f) Q h"
  by (simp add: wp_def)

lemma wp_run: "wp m Q h \<Longrightarrow> run_state m h = (a, h') \<Longrightarrow> Q a h'"
  by (simp add: wp_def)

lemma wp_runI: "(\<And>a h'. run_state m h = (a, h') \<Longrightarrow> Q a h') \<Longrightarrow> wp m Q h"
  by (auto simp: wp_def split: prod.split)

text \<open>Trace predicates closed under concatenation.\<close>

locale trace_prop =
  fixes P :: "'e list \<Rightarrow> bool"
  assumes P_Nil: "P []"
    and P_append: "P xs \<Longrightarrow> P ys \<Longrightarrow> P (xs @ ys)"
begin

lemma safe_return: "emits (ret a) (\<lambda>_. P)"
  by (rule emits_return) (rule P_Nil)

lemma safe_bind:
  "emits m (\<lambda>_. P) \<Longrightarrow> (\<And>a. emits (f a) (\<lambda>_. P)) \<Longrightarrow> emits (m \<bind> f) (\<lambda>_. P)"
  by (rule emits_bind_weaken [where ?Q1.0 = "\<lambda>_. P"]) (auto intro: emits_weaken P_append)

lemma safe_after: "emits m (\<lambda>_. P) \<Longrightarrow> P e1 \<Longrightarrow> emits m (\<lambda>_ e2. P (e1 @ e2))"
  by (erule emits_weaken) (rule P_append)

lemma safe_call: "(\<And>a. P [ev a]) \<Longrightarrow> emits (call f ev) (\<lambda>_. P)"
  by (rule emits_call)

lemma safe_foldM:
  "(\<And>acc x. emits (f acc x) (\<lambda>_. P)) \<Longrightarrow> emits (foldM f acc xs) (\<lambda>_. P)"
  by (induction xs arbitrary: acc) (auto intro: safe_return safe_bind)

lemma safe_if:
  "emits m (\<lambda>_. P) \<Longrightarrow> emits n (\<lambda>_. P) \<Longrightarrow> emits (if b then m else n) (\<lambda>_. P)"
  by simp

lemma safe_case_option:
  "emits m (\<lambda>_. P) \<Longrightarrow> (\<And>x. emits (f x) (\<lambda>_. P)) \<Longrightarrow>
     emits (case opt of None \<Rightarrow> m | Some x \<Rightarrow> f x) (\<lambda>_. P)"
  by (simp split: option.split)

lemma safe_case_sum:
  "(\<And>x. emits (f x) (\<lambda>_. P)) \<Longrightarrow> (\<And>x. emits (g x) (\<lambda>_. P)) \<Longrightarrow>
     emits (case s of Inl x \<Rightarrow> f x | Inr x \<Rightarrow> g x) (\<lambda>_. P)"
  by (simp split: sum.split)

lemma safe_case_prod:
  "(\<And>x y. emits (f x y) (\<lambda>_. P)) \<Longrightarrow> emits (case p of (x, y) \<Rightarrow> f x y) (\<lambda>_. P)"
  by (simp split: prod.split)

lemma safe_case_prod_app:
  "(\<And>x y. emits (f x y z) (\<lambda>_. P)) \<Longrightarrow> emits ((case p of (x, y) \<Rightarrow> f x y) z) (\<lambda>_. P)"
  by (simp split: prod.split)

lemma safe_let: "emits (f a) (\<lambda>_. P) \<Longrightarrow> emits (Let a f) (\<lambda>_. P)"
  by simp

lemmas safe_intros =
  safe_return safe_bind safe_foldM safe_if safe_case_option safe_case_sum safe_case_prod
  safe_case_prod_app safe_let

end

text \<open>A predicate of single events holds of all events of a concatenation.\<close>

interpretation list_all_prop: trace_prop "list_all p" for p
  by unfold_locales auto

end
