(* ===== verification/Api_Types.thy ===== *)
theory Api_Types
  imports Prelude
begin

text \<open>
  The data the operator works on: the custom resource of \<open>src/api/v1alpha1\<close>, the fields of
  Kubernetes' Service, Secret, ObjectMeta and Condition that the operator reads or writes, the
  gophercloud resources, and Go error values.

  Pointers are options (\<open>*string\<close>, \<open>*metav1.Time\<close>), a slice that is compared with nil is an
  optional list, times are nanoseconds since Go's zero time. \<open>DeepCopy\<close> is the identity on these
  values. \<open>svcRest\<close> stands for every field of a Service the operator neither reads nor writes.
\<close>

section \<open>Errors\<close>

text \<open>
  The dynamic types of error the operator distinguishes: an API server's \<open>StatusError\<close> (reason
  and message), gophercloud's \<open>ErrDefault404\<close>, any other library error, and the two forms of
  \<open>fmt.Errorf\<close>: without and with a wrapped error (always written \<open>"...: %w"\<close>).
\<close>

datatype error =
    StatusError string string
  | ErrDefault404 string
  | LibError string
  | Errorf string
  | ErrorfW string error

fun Error :: "error \<Rightarrow> string" where
  "Error (StatusError reason msg) = msg"
| "Error (ErrDefault404 msg) = msg"
| "Error (LibError msg) = msg"
| "Error (Errorf msg) = msg"
| "Error (ErrorfW msg e) = msg @ '': '' @ Error e"

section \<open>Kubernetes objects\<close>

type_synonym time = int

definition IsZero :: "time option \<Rightarrow> bool" where
  "IsZero t = (case t of None \<Rightarrow> True | Some n \<Rightarrow> n = 0)"

record object_meta =
  Name :: string
  Namespace :: string
  ResourceVersion :: string
  Annotations :: gmap
  Finalizers :: "string list"
  DeletionTimestamp :: "time option"

record NamespacedName =
  nnName :: string
  nnNamespace :: string

type_synonym Request = NamespacedName

datatype ConditionStatus = ConditionTrue | ConditionFalse | ConditionUnknown

record Condition =
  CondType :: string
  CondStatus :: ConditionStatus
  ObservedGeneration :: int
  LastTransitionTime :: time
  Reason :: string
  Message :: string

record Service =
  svcMeta :: object_meta
  svcType :: string
  LoadBalancerClass :: "string option"
  ExternalIPs :: "string list"
  Ingress :: "string list"
  svcRest :: string

record Secret =
  Data :: gmap

section \<open>The custom resource\<close>

record SecretReference =
  refName :: string
  refNamespace :: string

record OpenStackLoadBalancerSpec =
  ClassName :: string
  ApplicationCredentialSecretRef :: SecretReference
  CreateFloatingIP :: bool
  FloatingIPNetworkID :: string

record OpenStackLoadBalancerStatus =
  Conditions :: "Condition list option"
  LBNetworkID :: string
  LBSubnetID :: string
  Ready :: bool

record OpenStackLoadBalancer =
  lbMeta :: object_meta
  Spec :: OpenStackLoadBalancerSpec
  Status :: OpenStackLoadBalancerStatus

abbreviation lbName :: "OpenStackLoadBalancer \<Rightarrow> string" where
  "lbName lb \<equiv> Name (lbMeta lb)"

abbreviation lbNamespace :: "OpenStackLoadBalancer \<Rightarrow> string" where
  "lbNamespace lb \<equiv> Namespace (lbMeta lb)"

abbreviation svcName :: "Service \<Rightarrow> string" where
  "svcName svc \<equiv> Name (svcMeta svc)"

abbreviation svcNamespace :: "Service \<Rightarrow> string" where
  "svcNamespace svc \<equiv> Namespace (svcMeta svc)"

abbreviation svcAnnotations :: "Service \<Rightarrow> gmap" where
  "svcAnnotations svc \<equiv> Annotations (svcMeta svc)"

abbreviation svcFinalizers :: "Service \<Rightarrow> string list" where
  "svcFinalizers svc \<equiv> Finalizers (svcMeta svc)"

abbreviation lbFinalizers :: "OpenStackLoadBalancer \<Rightarrow> string list" where
  "lbFinalizers lb \<equiv> Finalizers (lbMeta lb)"

text \<open>A service or load balancer is terminating when its deletion timestamp is set.\<close>

abbreviation svcTerminating :: "Service \<Rightarrow> bool" where
  "svcTerminating svc \<equiv> \<not> IsZero (DeletionTimestamp (svcMeta svc))"

abbreviation lbTerminating :: "OpenStackLoadBalancer \<Rightarrow> bool" where
  "lbTerminating lb \<equiv> \<not> IsZero (DeletionTimestamp (lbMeta lb))"

definition svcKey :: "Service \<Rightarrow> NamespacedName" where
  "svcKey svc = \<lparr>nnName = svcName svc, nnNamespace = svcNamespace svc\<rparr>"

definition lbKey :: "OpenStackLoadBalancer \<Rightarrow> NamespacedName" where
  "lbKey lb = \<lparr>nnName = lbName lb, nnNamespace = lbNamespace lb\<rparr>"

text \<open>The interface \<open>client.Object\<close>, by the two types the operator passes through it.\<close>

datatype Object = LBObj OpenStackLoadBalancer | SvcObj Service

fun objMeta :: "Object \<Rightarrow> object_meta" where
  "objMeta (LBObj lb) = lbMeta lb"
| "objMeta (SvcObj svc) = svcMeta svc"

fun SetResourceVersion :: "Object \<Rightarrow> string \<Rightarrow> Object" where
  "SetResourceVersion (LBObj lb) v = LBObj (lb\<lparr>lbMeta := (lbMeta lb)\<lparr>ResourceVersion := v\<rparr>\<rparr>)"
| "SetResourceVersion (SvcObj svc) v = SvcObj (svc\<lparr>svcMeta := (svcMeta svc)\<lparr>ResourceVersion := v\<rparr>\<rparr>)"

definition svcSetFinalizers :: "Service \<Rightarrow> string list \<Rightarrow> Service" where
  "svcSetFinalizers svc fs = svc\<lparr>svcMeta := (svcMeta svc)\<lparr>Finalizers := fs\<rparr>\<rparr>"

definition lbSetFinalizers :: "OpenStackLoadBalancer \<Rightarrow> string list \<Rightarrow> OpenStackLoadBalancer" where
  "lbSetFinalizers lb fs = lb\<lparr>lbMeta := (lbMeta lb)\<lparr>Finalizers := fs\<rparr>\<rparr>"

definition svcSetAnnotations :: "Service \<Rightarrow> gmap \<Rightarrow> Service" where
  "svcSetAnnotations svc m = svc\<lparr>svcMeta := (svcMeta svc)\<lparr>Annotations := m\<rparr>\<rparr>"

section \<open>OpenStack resources\<close>

record FloatingIP =
  FIP_ID :: string
  FIP_FloatingIP :: string
  FIP_PortID :: string
  FIP_Description :: string

record Port =
  Port_ID :: string
  Port_Name :: string
  Port_Description :: string

record Subnet =
  Subnet_ID :: string
  Subnet_NetworkID :: string
  Subnet_CIDR :: string

record FloatingIPCreateOpts =
  fco_FloatingNetworkID :: string
  fco_PortID :: string
  fco_Description :: string

text \<open>A fixed IP of a port is a pair of a subnet ID and an address.\<close>

record PortCreateOpts =
  pco_NetworkID :: string
  pco_Name :: string
  pco_FixedIPs :: "(string \<times> string) list"
  pco_Description :: string

record AuthOptions =
  IdentityEndpoint :: string
  ApplicationCredentialID :: string
  ApplicationCredentialSecret :: string

text \<open>
  A certificate pool is the list of PEM bundles it was built from; an HTTP transport is its pool.
\<close>

type_synonym CertPool = "string list"

record Transport =
  RootCAs :: CertPool

record ProviderClient =
  pc_Endpoint :: string
  pc_Transport :: "Transport option"

datatype ServiceClient = ServiceClient string

text \<open>A result page as received; extraction may still fail.\<close>

datatype Page = Page string

end
