(* ===== verification/Environment.thy ===== *)
theory Environment
  imports Api_Types "HOL-Library.Multiset"
begin

text \<open>
  The outside world as a parameter of the model. Nothing here defines what the Kubernetes API
  server, OpenStack, controller-runtime, client-go, gophercloud or the operating system do: each
  of them is a record of functions the definitions of the operator take as an argument. Every call
  with an effect or an answer that can change sees the history of all earlier calls, so an
  environment can be any server state, with other clients acting in between.

  A call appends one event, the request with its answer, to the history: the trace over which the
  safety properties of the operator are stated. What the operator relies on is stated at the end as
  predicates over the records (documented behaviour), never as definitions.
\<close>

section \<open>Events\<close>

datatype event =
    EGetLB NamespacedName "error + OpenStackLoadBalancer"
  | EGetSvc NamespacedName "error + Service"
  | EGetSecret NamespacedName "error + Secret"
  | EListLBs "error + OpenStackLoadBalancer list"
  | EListSvcs "error + Service list"
  | EUpdate Object "error + Object"
  | EStatusUpdate OpenStackLoadBalancer "error + OpenStackLoadBalancer"
  | EPatchSvc Service string "error option"
  | EEventf Service string string
  | ENow time
  | ENewProvider string "error + ProviderClient"
  | EAuthenticate ProviderClient AuthOptions "error option"
  | ENewNetworkV2 ProviderClient string "error + ServiceClient"
  | EFipCreate ServiceClient FloatingIPCreateOpts "error + FloatingIP"
  | EFipGet ServiceClient string "error + FloatingIP"
  | EFipList ServiceClient string "error + Page"
  | EFipDelete ServiceClient string "error option"
  | EPortCreate ServiceClient PortCreateOpts "error + Port"
  | EPortGet ServiceClient string "error + Port"
  | EPortList ServiceClient "error + Page"
  | EPortDelete ServiceClient string "error option"
  | ESubnetList ServiceClient "error + Page"
  | ETagsList ServiceClient string string "error + string list"
  | ETagsReplace ServiceClient string string "string list" "error option"
  | ESystemCertPool "error + CertPool"
  | EStat string "error + bool"
  | EReadFile string "error + string"

type_synonym history = "event list"
type_synonym 'a io = "(history, 'a) state"

section \<open>The parameters\<close>

text \<open>The client of controller-runtime (\<open>client.Client\<close>), the event recorder and the clock.\<close>

record k8s_api =
  k8s_GetLB :: "history \<Rightarrow> NamespacedName \<Rightarrow> error + OpenStackLoadBalancer"
  k8s_GetSvc :: "history \<Rightarrow> NamespacedName \<Rightarrow> error + Service"
  k8s_GetSecret :: "history \<Rightarrow> NamespacedName \<Rightarrow> error + Secret"
  k8s_ListLBs :: "history \<Rightarrow> error + OpenStackLoadBalancer list"
  k8s_ListSvcs :: "history \<Rightarrow> error + Service list"
  k8s_Update :: "history \<Rightarrow> Object \<Rightarrow> error + Object"
  k8s_StatusUpdate :: "history \<Rightarrow> OpenStackLoadBalancer \<Rightarrow> error + OpenStackLoadBalancer"
  k8s_PatchSvc :: "history \<Rightarrow> Service \<Rightarrow> string \<Rightarrow> error option"
  k8s_Now :: "history \<Rightarrow> time"

text \<open>gophercloud: the request functions over a service client, and the page extractors.\<close>

record gophercloud =
  os_NewClient :: "history \<Rightarrow> string \<Rightarrow> error + ProviderClient"
  os_Authenticate :: "history \<Rightarrow> ProviderClient \<Rightarrow> AuthOptions \<Rightarrow> error option"
  os_NewNetworkV2 :: "history \<Rightarrow> ProviderClient \<Rightarrow> string \<Rightarrow> error + ServiceClient"
  fip_Create :: "history \<Rightarrow> ServiceClient \<Rightarrow> FloatingIPCreateOpts \<Rightarrow> error + FloatingIP"
  fip_Get :: "history \<Rightarrow> ServiceClient \<Rightarrow> string \<Rightarrow> error + FloatingIP"
  fip_List :: "history \<Rightarrow> ServiceClient \<Rightarrow> string \<Rightarrow> error + Page"
  fip_Delete :: "history \<Rightarrow> ServiceClient \<Rightarrow> string \<Rightarrow> error option"
  fip_Extract :: "Page \<Rightarrow> error + FloatingIP list"
  port_Create :: "history \<Rightarrow> ServiceClient \<Rightarrow> PortCreateOpts \<Rightarrow> error + Port"
  port_Get :: "history \<Rightarrow> ServiceClient \<Rightarrow> string \<Rightarrow> error + Port"
  port_List :: "history \<Rightarrow> ServiceClient \<Rightarrow> error + Page"
  port_Delete :: "history \<Rightarrow> ServiceClient \<Rightarrow> string \<Rightarrow> error option"
  port_Extract :: "Page \<Rightarrow> error + Port list"
  subnet_List :: "history \<Rightarrow> ServiceClient \<Rightarrow> error + Page"
  subnet_Extract :: "Page \<Rightarrow> error + Subnet list"
  tags_List :: "history \<Rightarrow> ServiceClient \<Rightarrow> string \<Rightarrow> string \<Rightarrow> error + string list"
  tags_ReplaceAll ::
    "history \<Rightarrow> ServiceClient \<Rightarrow> string \<Rightarrow> string \<Rightarrow> string list \<Rightarrow> error option"

text \<open>
  Pure helpers of controller-runtime, apimachinery and client-go. \<open>controllerutil\<close> reads and
  writes the finalizer list of an object. The condition function of \<open>wait.ExponentialBackoff\<close>
  captures the object it is called with, hence the \<open>Object\<close> threaded through it. Factor and
  jitter are fractions.
\<close>

record Backoff =
  Steps :: nat
  Duration :: nat
  Factor :: "nat \<times> nat"
  Jitter :: "nat \<times> nat"

type_synonym condition_func = "Object \<Rightarrow> ((bool \<times> error option) \<times> Object) io"

record library =
  ContainsFinalizer :: "string list \<Rightarrow> string \<Rightarrow> bool"
  AddFinalizer :: "string list \<Rightarrow> string \<Rightarrow> string list"
  RemoveFinalizer :: "string list \<Rightarrow> string \<Rightarrow> string list"
  IsNotFound :: "error \<Rightarrow> bool"
  IsConflict :: "error \<Rightarrow> bool"
  ExponentialBackoff :: "Backoff \<Rightarrow> condition_func \<Rightarrow> Object \<Rightarrow> (error option \<times> Object) io"
  DefaultRetry :: Backoff
  RetryOnConflict :: "Backoff \<Rightarrow> error option io \<Rightarrow> error option io"

text \<open>
  The Go runtime and the operating system: environment variables, the order in which a
  \<open>range\<close> visits the entries of a map, the certificate files. \<open>os_WalkDir\<close> is the sequence of
  visits \<open>filepath.WalkDir\<close> makes as long as its callback returns nil.
\<close>

record WalkEntry =
  we_path :: string
  we_Name :: string
  we_IsDir :: bool
  we_err :: "error option"

record os_api =
  os_Getenv :: "string \<Rightarrow> string"
  map_range :: "(string \<times> string) list \<Rightarrow> (string \<times> string) list"
  os_SystemCertPool :: "history \<Rightarrow> error + CertPool"
  os_Stat :: "history \<Rightarrow> string \<Rightarrow> error + bool"
  os_ReadFile :: "history \<Rightarrow> string \<Rightarrow> error + string"
  os_WalkDir :: "history \<Rightarrow> string \<Rightarrow> WalkEntry list"
  pem_ok :: "string \<Rightarrow> bool"

record env =
  k8s :: k8s_api
  gopher :: gophercloud
  lib :: library
  sys :: os_api

section \<open>The calls\<close>

definition GetLB :: "env \<Rightarrow> NamespacedName \<Rightarrow> (error + OpenStackLoadBalancer) io" where
  "GetLB E k = call (\<lambda>h. k8s_GetLB (k8s E) h k) (EGetLB k)"

definition GetSvc :: "env \<Rightarrow> NamespacedName \<Rightarrow> (error + Service) io" where
  "GetSvc E k = call (\<lambda>h. k8s_GetSvc (k8s E) h k) (EGetSvc k)"

definition GetSecret :: "env \<Rightarrow> NamespacedName \<Rightarrow> (error + Secret) io" where
  "GetSecret E k = call (\<lambda>h. k8s_GetSecret (k8s E) h k) (EGetSecret k)"

definition ListLBs :: "env \<Rightarrow> (error + OpenStackLoadBalancer list) io" where
  "ListLBs E = call (k8s_ListLBs (k8s E)) EListLBs"

definition ListSvcs :: "env \<Rightarrow> (error + Service list) io" where
  "ListSvcs E = call (k8s_ListSvcs (k8s E)) EListSvcs"

definition Update :: "env \<Rightarrow> Object \<Rightarrow> (error + Object) io" where
  "Update E obj = call (\<lambda>h. k8s_Update (k8s E) h obj) (EUpdate obj)"

definition StatusUpdate :: "env \<Rightarrow> OpenStackLoadBalancer \<Rightarrow> (error + OpenStackLoadBalancer) io" where
  "StatusUpdate E lb = call (\<lambda>h. k8s_StatusUpdate (k8s E) h lb) (EStatusUpdate lb)"

definition PatchSvc :: "env \<Rightarrow> Service \<Rightarrow> string \<Rightarrow> error option io" where
  "PatchSvc E svc p = call (\<lambda>h. k8s_PatchSvc (k8s E) h svc p) (EPatchSvc svc p)"

definition Eventf :: "Service \<Rightarrow> string \<Rightarrow> string \<Rightarrow> unit io" where
  "Eventf svc reason msg = call (\<lambda>h. ()) (\<lambda>_. EEventf svc reason msg)"

definition Now :: "env \<Rightarrow> time io" where
  "Now E = call (k8s_Now (k8s E)) ENow"

definition NewProvider :: "env \<Rightarrow> string \<Rightarrow> (error + ProviderClient) io" where
  "NewProvider E url = call (\<lambda>h. os_NewClient (gopher E) h url) (ENewProvider url)"

definition Authenticate :: "env \<Rightarrow> ProviderClient \<Rightarrow> AuthOptions \<Rightarrow> error option io" where
  "Authenticate E pc ao = call (\<lambda>h. os_Authenticate (gopher E) h pc ao) (EAuthenticate pc ao)"

definition NewNetworkV2 :: "env \<Rightarrow> ProviderClient \<Rightarrow> string \<Rightarrow> (error + ServiceClient) io" where
  "NewNetworkV2 E pc region = call (\<lambda>h. os_NewNetworkV2 (gopher E) h pc region) (ENewNetworkV2 pc region)"

definition FipCreate :: "env \<Rightarrow> ServiceClient \<Rightarrow> FloatingIPCreateOpts \<Rightarrow> (error + FloatingIP) io" where
  "FipCreate E c opts = call (\<lambda>h. fip_Create (gopher E) h c opts) (EFipCreate c opts)"

definition FipGet :: "env \<Rightarrow> ServiceClient \<Rightarrow> string \<Rightarrow> (error + FloatingIP) io" where
  "FipGet E c i = call (\<lambda>h. fip_Get (gopher E) h c i) (EFipGet c i)"

definition FipList :: "env \<Rightarrow> ServiceClient \<Rightarrow> string \<Rightarrow> (error + Page) io" where
  "FipList E c p = call (\<lambda>h. fip_List (gopher E) h c p) (EFipList c p)"

definition FipDelete :: "env \<Rightarrow> ServiceClient \<Rightarrow> string \<Rightarrow> error option io" where
  "FipDelete E c i = call (\<lambda>h. fip_Delete (gopher E) h c i) (EFipDelete c i)"

definition PortCreate :: "env \<Rightarrow> ServiceClient \<Rightarrow> PortCreateOpts \<Rightarrow> (error + Port) io" where
  "PortCreate E c opts = call (\<lambda>h. port_Create (gopher E) h c opts) (EPortCreate c opts)"

definition PortGet :: "env \<Rightarrow> ServiceClient \<Rightarrow> string \<Rightarrow> (error + Port) io" where
  "PortGet E c i = call (\<lambda>h. port_Get (gopher E) h c i) (EPortGet c i)"

definition PortList :: "env \<Rightarrow> ServiceClient \<Rightarrow> (error + Page) io" where
  "PortList E c = call (\<lambda>h. port_List (gopher E) h c) (EPortList c)"

definition PortDelete :: "env \<Rightarrow> ServiceClient \<Rightarrow> string \<Rightarrow> error option io" where
  "PortDelete E c i = call (\<lambda>h. port_Delete (gopher E) h c i) (EPortDelete c i)"

definition SubnetList :: "env \<Rightarrow> ServiceClient \<Rightarrow> (error + Page) io" where
  "SubnetList E c = call (\<lambda>h. subnet_List (gopher E) h c) (ESubnetList c)"

definition TagsList :: "env \<Rightarrow> ServiceClient \<Rightarrow> string \<Rightarrow> string \<Rightarrow> (error + string list) io" where
  "TagsList E c rt i = call (\<lambda>h. tags_List (gopher E) h c rt i) (ETagsList c rt i)"

definition TagsReplaceAll ::
  "env \<Rightarrow> ServiceClient \<Rightarrow> string \<Rightarrow> string \<Rightarrow> string list \<Rightarrow> error option io" where
  "TagsReplaceAll E c rt i tags =
     call (\<lambda>h. tags_ReplaceAll (gopher E) h c rt i tags) (ETagsReplace c rt i tags)"

definition SystemCertPool :: "env \<Rightarrow> (error + CertPool) io" where
  "SystemCertPool E = call (os_SystemCertPool (sys E)) ESystemCertPool"

definition Stat :: "env \<Rightarrow> string \<Rightarrow> (error + bool) io" where
  "Stat E p = call (\<lambda>h. os_Stat (sys E) h p) (EStat p)"

definition ReadFile :: "env \<Rightarrow> string \<Rightarrow> (error + string) io" where
  "ReadFile E p = call (\<lambda>h. os_ReadFile (sys E) h p) (EReadFile p)"

lemmas call_defs =
  GetLB_def GetSvc_def GetSecret_def ListLBs_def ListSvcs_def Update_def StatusUpdate_def
  PatchSvc_def Eventf_def Now_def NewProvider_def Authenticate_def NewNetworkV2_def
  FipCreate_def FipGet_def FipList_def FipDelete_def PortCreate_def PortGet_def PortList_def
  PortDelete_def SubnetList_def TagsList_def TagsReplaceAll_def SystemCertPool_def Stat_def
  ReadFile_def

section \<open>What the operator relies on\<close>

text \<open>
  \<open>wait.ExponentialBackoff\<close>: run the condition up to \<open>Steps\<close> times, stop with nil when it
  reports done, with its error when it returns one, and with a timeout error when the steps are
  used up. \<open>retry_steps\<close> states that behaviour (the sleeps are not observable here).
\<close>

definition ErrWaitTimeout :: error where
  "ErrWaitTimeout = LibError ''timed out waiting for the condition''"

fun retry_steps :: "nat \<Rightarrow> condition_func \<Rightarrow> Object \<Rightarrow> (error option \<times> Object) io" where
  "retry_steps 0 f obj = ret (Some ErrWaitTimeout, obj)"
| "retry_steps (Suc n) f obj = do {
     ((done, err), obj') \<leftarrow> f obj;
     if err \<noteq> None \<or> done then ret (err, obj') else retry_steps n f obj'
   }"

definition backoff_spec :: "library \<Rightarrow> bool" where
  "backoff_spec L \<longleftrightarrow> (\<forall>b f obj. ExponentialBackoff L b f obj = retry_steps (Steps b) f obj)"

text \<open>
  \<open>retry.RetryOnConflict\<close>: repeat the function while it fails with a conflict, at most \<open>Steps\<close>
  times, and return its last error.
\<close>

fun conflict_steps :: "(error \<Rightarrow> bool) \<Rightarrow> nat \<Rightarrow> error option io \<Rightarrow> error option io" where
  "conflict_steps conflict 0 f = f"
| "conflict_steps conflict (Suc n) f = do {
     r \<leftarrow> f;
     case r of
       None \<Rightarrow> ret None
     | Some e \<Rightarrow> if conflict e then conflict_steps conflict n f else ret (Some e)
   }"

definition conflict_spec :: "library \<Rightarrow> bool" where
  "conflict_spec L \<longleftrightarrow>
     (\<forall>b f. 0 < Steps b \<longrightarrow> RetryOnConflict L b f = conflict_steps (IsConflict L) (Steps b - 1) f)
     \<and> 0 < Steps (DefaultRetry L)"

definition retry_spec :: "library \<Rightarrow> bool" where
  "retry_spec L \<longleftrightarrow> backoff_spec L \<and> conflict_spec L"

lemma retry_spec_backoff [dest]: "retry_spec L \<Longrightarrow> backoff_spec L"
  and retry_spec_conflict [dest]: "retry_spec L \<Longrightarrow> conflict_spec L"
  by (simp_all add: retry_spec_def)

text \<open>\<open>controllerutil\<close>: membership, insertion and removal of a finalizer.\<close>

definition finalizer_spec :: "library \<Rightarrow> bool" where
  "finalizer_spec L \<longleftrightarrow>
     (\<forall>fs f. ContainsFinalizer L fs f \<longleftrightarrow> f \<in> set fs)
     \<and> (\<forall>fs f. set (AddFinalizer L fs f) = insert f (set fs))
     \<and> (\<forall>fs f. set (RemoveFinalizer L fs f) = set fs - {f})"

text \<open>The Go language: a \<open>range\<close> over a map visits exactly its entries, in some order.\<close>

definition range_spec :: "os_api \<Rightarrow> bool" where
  "range_spec S \<longleftrightarrow> (\<forall>m. mset (map_range S m) = mset m)"

lemma range_spec_set: "range_spec S \<Longrightarrow> set (map_range S m) = set m"
  by (metis range_spec_def mset_eq_setD)

lemma range_spec_map_of:
  assumes "range_spec S" and "distinct (map fst m)"
  shows "distinct (map fst (map_range S m)) \<and> map_of (map_range S m) = map_of m"
proof -
  have "mset (map fst (map_range S m)) = mset (map fst m)"
    using assms(1) by (simp add: range_spec_def)
  then have d: "distinct (map fst (map_range S m))"
    using assms(2) mset_eq_imp_distinct_iff by blast
  with assms range_spec_set [OF assms(1)] show ?thesis
    by (simp add: map_of_inject_set)
qed

text \<open>A concrete library with these behaviours: the hypotheses can hold together.\<close>

definition ref_library :: library where
  "ref_library = \<lparr>
     ContainsFinalizer = (\<lambda>fs f. f \<in> set fs),
     AddFinalizer = (\<lambda>fs f. if f \<in> set fs then fs else fs @ [f]),
     RemoveFinalizer = (\<lambda>fs f. filter (\<lambda>g. g \<noteq> f) fs),
     IsNotFound = (\<lambda>e. case e of StatusError r m \<Rightarrow> r = ''NotFound'' | _ \<Rightarrow> False),
     IsConflict = (\<lambda>e. case e of StatusError r m \<Rightarrow> r = ''Conflict'' | _ \<Rightarrow> False),
     ExponentialBackoff = (\<lambda>b. retry_steps (Steps b)),
     DefaultRetry = \<lparr>Steps = 5, Duration = 10000000, Factor = (1, 1), Jitter = (1, 10)\<rparr>,
     RetryOnConflict = (\<lambda>b. conflict_steps
       (\<lambda>e. case e of StatusError r m \<Rightarrow> r = ''Conflict'' | _ \<Rightarrow> False) (Steps b - 1))\<rparr>"

lemma ref_library_retry [simp]: "retry_spec ref_library"
  by (simp add: retry_spec_def backoff_spec_def conflict_spec_def ref_library_def)

lemma ref_library_backoff [simp]: "backoff_spec ref_library"
  by (simp add: backoff_spec_def ref_library_def)

lemma ref_library_finalizer [simp]: "finalizer_spec ref_library"
  by (auto simp: finalizer_spec_def ref_library_def)

lemma ExponentialBackoff_eq:
  "backoff_spec L \<Longrightarrow> ExponentialBackoff L b f obj = retry_steps (Steps b) f obj"
  by (simp add: backoff_spec_def)

lemma RetryOnConflict_eq:
  "conflict_spec L \<Longrightarrow>
     RetryOnConflict L (DefaultRetry L) f =
       conflict_steps (IsConflict L) (Steps (DefaultRetry L) - 1) f"
  by (simp add: conflict_spec_def)

section \<open>Audited traces\<close>

text \<open>
  The calls that change what exists in OpenStack. Every other call is neutral for the properties of
  the OpenStack side; the locale \<open>audited\<close> takes a concatenation-closed predicate that no
  neutral call can break and carries it through the retries.
\<close>

fun neutral :: "event \<Rightarrow> bool" where
  "neutral (EFipCreate c opts r) = False"
| "neutral (EFipDelete c i r) = False"
| "neutral (EPortCreate c opts r) = False"
| "neutral (EPortDelete c i r) = False"
| "neutral (ETagsReplace c rt i tags r) = False"
| "neutral _ = True"

locale audited = trace_prop P for P :: "event list \<Rightarrow> bool" +
  assumes P_neutral: "neutral e \<Longrightarrow> P [e]"
begin

lemma safe_neutral_call: "(\<And>a. neutral (ev a)) \<Longrightarrow> emits (call f ev) (\<lambda>_. P)"
  by (rule safe_call) (rule P_neutral)

lemma safe_GetLB: "emits (GetLB E k) (\<lambda>_. P)"
  and safe_GetSvc: "emits (GetSvc E k) (\<lambda>_. P)"
  and safe_GetSecret: "emits (GetSecret E k) (\<lambda>_. P)"
  and safe_ListLBs: "emits (ListLBs E) (\<lambda>_. P)"
  and safe_ListSvcs: "emits (ListSvcs E) (\<lambda>_. P)"
  and safe_Update: "emits (Update E obj) (\<lambda>_. P)"
  and safe_StatusUpdate: "emits (StatusUpdate E lb) (\<lambda>_. P)"
  and safe_PatchSvc: "emits (PatchSvc E svc patch) (\<lambda>_. P)"
  and safe_Eventf: "emits (Eventf svc reason msg) (\<lambda>_. P)"
  and safe_Now: "emits (Now E) (\<lambda>_. P)"
  and safe_NewProvider: "emits (NewProvider E url) (\<lambda>_. P)"
  and safe_Authenticate: "emits (Authenticate E pc ao) (\<lambda>_. P)"
  and safe_NewNetworkV2: "emits (NewNetworkV2 E pc region) (\<lambda>_. P)"
  and safe_FipGet: "emits (FipGet E c i) (\<lambda>_. P)"
  and safe_FipList: "emits (FipList E c i) (\<lambda>_. P)"
  and safe_PortGet: "emits (PortGet E c i) (\<lambda>_. P)"
  and safe_PortList: "emits (PortList E c) (\<lambda>_. P)"
  and safe_SubnetList: "emits (SubnetList E c) (\<lambda>_. P)"
  and safe_TagsList: "emits (TagsList E c rt i) (\<lambda>_. P)"
  and safe_SystemCertPool: "emits (SystemCertPool E) (\<lambda>_. P)"
  and safe_Stat: "emits (Stat E path) (\<lambda>_. P)"
  and safe_ReadFile: "emits (ReadFile E path) (\<lambda>_. P)"
  by (simp_all add: call_defs safe_neutral_call)

lemmas safe_calls =
  safe_GetLB safe_GetSvc safe_GetSecret safe_ListLBs safe_ListSvcs safe_Update safe_StatusUpdate
  safe_PatchSvc safe_Eventf safe_Now safe_NewProvider safe_Authenticate safe_NewNetworkV2
  safe_FipGet safe_FipList safe_PortGet safe_PortList safe_SubnetList safe_TagsList
  safe_SystemCertPool safe_Stat safe_ReadFile

lemma safe_retry_steps:
  assumes "\<And>obj. emits (f obj) (\<lambda>_. P)"
  shows "emits (retry_steps n f obj) (\<lambda>_. P)"
proof (induction n arbitrary: obj)
  case 0
  show ?case by (simp add: safe_return)
next
  case (Suc n)
  then show ?case by (auto intro!: safe_bind safe_return safe_case_prod safe_if assms)
qed

lemma safe_backoff:
  "backoff_spec L \<Longrightarrow> (\<And>obj. emits (f obj) (\<lambda>_. P)) \<Longrightarrow>
     emits (ExponentialBackoff L b f obj) (\<lambda>_. P)"
  by (simp add: ExponentialBackoff_eq safe_retry_steps)

lemma safe_conflict_steps:
  "emits f (\<lambda>_. P) \<Longrightarrow> emits (conflict_steps conflict n f) (\<lambda>_. P)"
  by (induction n) (auto intro!: safe_bind safe_return safe_case_option safe_if)

lemma safe_conflict:
  "conflict_spec L \<Longrightarrow> emits f (\<lambda>_. P) \<Longrightarrow>
     emits (RetryOnConflict L (DefaultRetry L) f) (\<lambda>_. P)"
  by (simp add: RetryOnConflict_eq safe_conflict_steps)

end

section \<open>Retried updates\<close>

text \<open>
  The contract between a closure and \<open>wait.ExponentialBackoff\<close>: as long as the captured object
  satisfies \<open>J\<close>, one attempt emits at most \<open>m\<close> events that satisfy \<open>A\<close>, and either ends
  the loop with a result and events related by \<open>R\<close>, or leaves an object that satisfies \<open>J\<close>.
  The whole loop then emits at most \<open>Steps \<times> m\<close> events, and unless it times out, it ends with the
  events of the deciding attempt.
\<close>

locale retried = trace_prop A for A :: "event list \<Rightarrow> bool" +
  fixes f :: condition_func and J :: "Object \<Rightarrow> bool" and R :: "error option \<Rightarrow> event list \<Rightarrow> bool" and m :: nat
  assumes attempt: "J obj \<Longrightarrow> emits (f obj) (\<lambda>r ev. A ev \<and> length ev \<le> m
      \<and> (if snd (fst r) \<noteq> None \<or> fst (fst r) then R (snd (fst r)) ev else J (snd r)))"
begin

lemma retry_steps_outcome:
  "J obj \<Longrightarrow> emits (retry_steps n f obj) (\<lambda>r ev. A ev \<and> length ev \<le> n * m
    \<and> (fst r = Some ErrWaitTimeout \<or> (\<exists>ev2. suffix ev2 ev \<and> R (fst r) ev2)))"
proof (induction n arbitrary: obj)
  case 0
  then show ?case by (auto intro: emits_return P_Nil)
next
  case (Suc n)
  show ?case
    unfolding retry_steps.simps
  proof (rule emits_bind_weaken [OF attempt [OF Suc.prems]])
    fix x e1
    assume *: "A e1 \<and> length e1 \<le> m
      \<and> (if snd (fst x) \<noteq> None \<or> fst (fst x) then R (snd (fst x)) e1 else J (snd x))"
    obtain don err obj' where x: "x = ((don, err), obj')" by (metis prod.collapse)
    have "emits (if err \<noteq> None \<or> don then ret (err, obj') else retry_steps n f obj')
      (\<lambda>r e2. A (e1 @ e2) \<and> length (e1 @ e2) \<le> Suc n * m
         \<and> (fst r = Some ErrWaitTimeout \<or> (\<exists>ev2. suffix ev2 (e1 @ e2) \<and> R (fst r) ev2)))"
    proof (cases "err \<noteq> None \<or> don")
      case True
      with * x show ?thesis by (auto intro!: emits_return)
    next
      case False
      have "emits (retry_steps n f obj') (\<lambda>r e2. A (e1 @ e2) \<and> length (e1 @ e2) \<le> Suc n * m
         \<and> (fst r = Some ErrWaitTimeout \<or> (\<exists>ev2. suffix ev2 (e1 @ e2) \<and> R (fst r) ev2)))"
        using * x False by (intro emits_weaken [OF Suc.IH]) (auto intro: P_append suffix_appendI)
      with False show ?thesis by auto
    qed
    then show "emits ((\<lambda>((done, err), obj'). if err \<noteq> None \<or> done then ret (err, obj') else retry_steps n f obj') x)
      (\<lambda>r e2. A (e1 @ e2) \<and> length (e1 @ e2) \<le> Suc n * m
         \<and> (fst r = Some ErrWaitTimeout \<or> (\<exists>ev2. suffix ev2 (e1 @ e2) \<and> R (fst r) ev2)))"
      by (simp add: x)
  qed
qed

lemma backoff_outcome:
  assumes "backoff_spec L" and "J obj" and "run_state (ExponentialBackoff L b f obj) h = ((err, obj'), h')"
  shows "\<exists>ev. h' = h @ ev \<and> A ev \<and> length ev \<le> Steps b * m
    \<and> (err = Some ErrWaitTimeout \<or> (\<exists>ev2. suffix ev2 ev \<and> R err ev2))"
  using emitsD [OF retry_steps_outcome [OF assms(2)]] assms(3) unfolding ExponentialBackoff_eq [OF assms(1)]
  by (metis fst_conv)

end

end
