(* ===== verification/Openstack_Common.thy ===== *)
theory Openstack_Common
  imports Environment
begin

text \<open>
  \<open>src/pkg/openstack/constants.go\<close> and \<open>src/pkg/openstack/common.go\<close>: the ownership tags,
  the guarded deletion every resource goes through, and the search for the resources of a service.
\<close>

section \<open>Constants\<close>

definition TagManagedBy :: string where "TagManagedBy = ''managed-by''"
definition TagManagedByValue :: string where "TagManagedByValue = ''openstack-lb-operator''"
definition TagServiceNamespace :: string where "TagServiceNamespace = ''k8s-service-namespace''"
definition TagServiceName :: string where "TagServiceName = ''k8s-service-name''"
definition TagClusterName :: string where "TagClusterName = ''k8s-cluster-name''"
definition TagResourceType :: string where "TagResourceType = ''resource-type''"
definition ResourceTypePort :: string where "ResourceTypePort = ''ports''"
definition ResourceTypeFloatingIP :: string where "ResourceTypeFloatingIP = ''floatingips''"

lemmas tag_const_defs =
  TagManagedBy_def TagManagedByValue_def TagServiceNamespace_def TagServiceName_def
  TagClusterName_def TagResourceType_def ResourceTypePort_def ResourceTypeFloatingIP_def

section \<open>Operations\<close>

text \<open>\<open>IsNotFoundError\<close> of client.go: a type assertion, which does not look inside wrapped errors.\<close>

fun IsNotFoundError :: "error \<Rightarrow> bool" where
  "IsNotFoundError (ErrDefault404 msg) = True"
| "IsNotFoundError _ = False"

fun isResourceOwnedByOperator_loop :: "string \<Rightarrow> string list \<Rightarrow> bool" where
  "isResourceOwnedByOperator_loop ownershipTag [] = False"
| "isResourceOwnedByOperator_loop ownershipTag (tag # tags) =
     (if tag = ownershipTag then True else isResourceOwnedByOperator_loop ownershipTag tags)"

definition isResourceOwnedByOperator :: "string list \<Rightarrow> bool" where
  "isResourceOwnedByOperator tags =
     isResourceOwnedByOperator_loop (TagManagedBy @ ''='' @ TagManagedByValue) tags"

fun isResourceForService_loop ::
  "string \<Rightarrow> string \<Rightarrow> bool \<Rightarrow> bool \<Rightarrow> string list \<Rightarrow> bool \<times> bool" where
  "isResourceForService_loop namespaceTag nameTag hasNamespace hasName [] = (hasNamespace, hasName)"
| "isResourceForService_loop namespaceTag nameTag hasNamespace hasName (tag # tags) =
     isResourceForService_loop namespaceTag nameTag
       (if tag = namespaceTag then True else hasNamespace)
       (if tag = nameTag then True else hasName) tags"

definition isResourceForService :: "string list \<Rightarrow> string \<Rightarrow> string \<Rightarrow> bool" where
  "isResourceForService tags namespace name =
     (let namespaceTag = TagServiceNamespace @ ''='' @ namespace;
          nameTag = TagServiceName @ ''='' @ name;
          (hasNamespace, hasName) = isResourceForService_loop namespaceTag nameTag False False tags
      in hasNamespace \<and> hasName)"

text \<open>The tags follow the order in which the Go runtime happens to visit the map.\<close>

definition convertMapToTags :: "env \<Rightarrow> (string \<times> string) list \<Rightarrow> string list" where
  "convertMapToTags E tagMap = map (\<lambda>(k, v). k @ ''='' @ v) (map_range (sys E) tagMap)"

definition deleteResource ::
  "env \<Rightarrow> ServiceClient \<Rightarrow> string \<Rightarrow> string \<Rightarrow> (ServiceClient \<Rightarrow> string \<Rightarrow> (error + bool) io) \<Rightarrow>
     (string \<Rightarrow> error option io) \<Rightarrow> error option io" where
  "deleteResource E client resourceType resourceID checkExists deleteFunc = do {
     chk \<leftarrow> checkExists client resourceID;
     case chk of
       Inl e \<Rightarrow> ret (Some (ErrorfW (''failed to check if '' @ resourceType @ '' '' @ resourceID @ '' exists'') e))
     | Inr exists \<Rightarrow>
         if \<not> exists then ret None
         else do {
           tags \<leftarrow> TagsList E client resourceType resourceID;
           if (case tags of Inl _ \<Rightarrow> False | Inr ts \<Rightarrow> \<not> isResourceOwnedByOperator ts)
           then ret (Some (Errorf (''refusing to delete '' @ resourceType @ '' '' @ resourceID
                                     @ '': not owned by this operator'')))
           else do {
             err \<leftarrow> deleteFunc resourceID;
             case err of
               None \<Rightarrow> ret None
             | Some e \<Rightarrow>
                 if IsNotFoundError e then ret None
                 else ret (Some (ErrorfW (''failed to delete '' @ resourceType @ '' '' @ resourceID) e))
           }
         }
   }"

fun getManagedResources_loop ::
  "env \<Rightarrow> ServiceClient \<Rightarrow> string \<Rightarrow> string \<Rightarrow> string \<Rightarrow> ('t \<Rightarrow> string) \<Rightarrow> 't list \<Rightarrow> 't list \<Rightarrow> 't list io"
where
  "getManagedResources_loop E client resourceType ns name getIDFunc managed [] = ret managed"
| "getManagedResources_loop E client resourceType ns name getIDFunc managed (resource # resources) = do {
     tags \<leftarrow> TagsList E client resourceType (getIDFunc resource);
     getManagedResources_loop E client resourceType ns name getIDFunc
       (case tags of
          Inl _ \<Rightarrow> managed
        | Inr ts \<Rightarrow> if isResourceOwnedByOperator ts \<and> isResourceForService ts ns name
                    then managed @ [resource] else managed)
       resources
   }"

definition getManagedResources ::
  "env \<Rightarrow> ServiceClient \<Rightarrow> string \<Rightarrow> string \<Rightarrow> string \<Rightarrow> string \<Rightarrow> (error + Page) io \<Rightarrow>
     (Page \<Rightarrow> error + 't list) \<Rightarrow> ('t \<Rightarrow> string) \<Rightarrow> (error + 't list) io" where
  "getManagedResources E client resourceType resourceTypeName ns name listFunc extractFunc getIDFunc = do {
     allPages \<leftarrow> listFunc;
     case allPages of
       Inl e \<Rightarrow> ret (Inl (ErrorfW (''failed to list '' @ resourceTypeName) e))
     | Inr pages \<Rightarrow>
         (case extractFunc pages of
            Inl e \<Rightarrow> ret (Inl (ErrorfW (''failed to extract '' @ resourceTypeName) e))
          | Inr allResources \<Rightarrow> do {
              rs \<leftarrow> getManagedResources_loop E client resourceType ns name getIDFunc [] allResources;
              ret (Inr rs)
            })
   }"

section \<open>Tags\<close>

lemma isResourceOwnedByOperator_iff:
  "isResourceOwnedByOperator tags \<longleftrightarrow> TagManagedBy @ ''='' @ TagManagedByValue \<in> set tags"
proof -
  have "isResourceOwnedByOperator_loop t tags \<longleftrightarrow> t \<in> set tags" for t
    by (induction tags) auto
  then show ?thesis by (simp add: isResourceOwnedByOperator_def)
qed

lemma isResourceForService_iff:
  "isResourceForService tags ns name \<longleftrightarrow>
     TagServiceNamespace @ ''='' @ ns \<in> set tags \<and> TagServiceName @ ''='' @ name \<in> set tags"
proof -
  have "isResourceForService_loop s t a b tags = (a \<or> s \<in> set tags, b \<or> t \<in> set tags)" for s t a b
    by (induction tags arbitrary: a b) auto
  then show ?thesis by (simp add: isResourceForService_def)
qed

lemma set_convertMapToTags:
  "range_spec (sys E) \<Longrightarrow> set (convertMapToTags E m) = (\<lambda>(k, v). k @ ''='' @ v) ` set m"
  by (simp add: convertMapToTags_def range_spec_set)

section \<open>The guard of deletions\<close>

text \<open>
  A deletion is guarded when the call right before it read the tags of the same resource and
  either found the ownership tag or failed. \<open>delete_guarded\<close> says so of every deletion of a trace.
\<close>

fun owner_check :: "ServiceClient \<Rightarrow> string \<Rightarrow> string \<Rightarrow> event option \<Rightarrow> bool" where
  "owner_check c rt i (Some (ETagsList c' rt' i' r)) =
     (c' = c \<and> rt' = rt \<and> i' = i
      \<and> (case r of Inl _ \<Rightarrow> True | Inr tags \<Rightarrow> isResourceOwnedByOperator tags))"
| "owner_check c rt i _ = False"

lemma owner_check_iff:
  "owner_check c rt i prev \<longleftrightarrow>
     (\<exists>r. prev = Some (ETagsList c rt i r)
         \<and> (\<forall>tags. r = Inr tags \<longrightarrow> isResourceOwnedByOperator tags))"
  by (cases "(c, rt, i, prev)" rule: owner_check.cases) (auto split: sum.split)

fun delete_ok :: "event option \<Rightarrow> event \<Rightarrow> bool" where
  "delete_ok prev (EPortDelete c i r) = owner_check c ResourceTypePort i prev"
| "delete_ok prev (EFipDelete c i r) = owner_check c ResourceTypeFloatingIP i prev"
| "delete_ok prev _ = True"

fun guarded_from :: "event option \<Rightarrow> event list \<Rightarrow> bool" where
  "guarded_from prev [] = True"
| "guarded_from prev (e # es) = (delete_ok prev e \<and> guarded_from (Some e) es)"

definition delete_guarded :: "event list \<Rightarrow> bool" where
  "delete_guarded es = guarded_from None es"

lemma delete_ok_None: "delete_ok None e \<Longrightarrow> delete_ok prev e"
  by (cases e) auto

lemma guarded_from_None: "guarded_from None es \<Longrightarrow> guarded_from prev es"
  by (cases es) (auto intro: delete_ok_None)

lemma guarded_from_append:
  "guarded_from prev xs \<Longrightarrow> guarded_from None ys \<Longrightarrow> guarded_from prev (xs @ ys)"
  by (induction xs arbitrary: prev) (auto intro: guarded_from_None)

interpretation guarded: audited delete_guarded
proof unfold_locales
  fix xs ys assume "delete_guarded xs" and "delete_guarded ys"
  then show "delete_guarded (xs @ ys)"
    by (simp add: delete_guarded_def guarded_from_append)
next
  fix e assume "neutral e"
  then show "delete_guarded [e]" by (cases e) (simp_all add: delete_guarded_def)
qed (simp add: delete_guarded_def)

text \<open>What \<open>delete_guarded\<close> means for one deletion inside a trace.\<close>

lemma guarded_from_split:
  "guarded_from prev (xs @ e # ys) \<Longrightarrow> delete_ok (if xs = [] then prev else Some (last xs)) e"
  by (induction xs arbitrary: prev) auto

lemma delete_guarded_split:
  "delete_guarded (xs @ e # ys) \<Longrightarrow> delete_ok (if xs = [] then None else Some (last xs)) e"
  unfolding delete_guarded_def by (rule guarded_from_split)

end
