(* ===== verification/Sample_World.thy ===== *)
theory Sample_World
  imports Openstack_Common
begin

text \<open>
  A small concrete world, used by the witnesses: one load balancer of class \<open>metallb\<close>, one service
  of that class with an address, one subnet that contains it, one port and one floating IP with the
  operator's tags. Every call succeeds and the answers do not depend on the history; the witnesses
  change single answers where they need a failure.
\<close>

definition sample_meta :: "string \<Rightarrow> object_meta" where
  "sample_meta name = \<lparr>Name = name, Namespace = ''default'', ResourceVersion = ''1'',
     Annotations = None, Finalizers = [], DeletionTimestamp = None\<rparr>"

definition sample_svc :: Service where
  "sample_svc = \<lparr>svcMeta = sample_meta ''web'', svcType = ''LoadBalancer'',
     LoadBalancerClass = Some ''metallb'', ExternalIPs = [], Ingress = [''10.0.0.5''], svcRest = []\<rparr>"

definition sample_lb :: OpenStackLoadBalancer where
  "sample_lb = \<lparr>lbMeta = sample_meta ''lb'',
     Spec = \<lparr>ClassName = ''metallb'',
       ApplicationCredentialSecretRef = \<lparr>refName = ''creds'', refNamespace = ''default''\<rparr>,
       CreateFloatingIP = True, FloatingIPNetworkID = ''ext''\<rparr>,
     Status = \<lparr>Conditions = None, LBNetworkID = [], LBSubnetID = [], Ready = False\<rparr>\<rparr>"

definition sample_port :: Port where
  "sample_port = \<lparr>Port_ID = ''p1'', Port_Name = ''k8s-lb-default-web'',
     Port_Description = ''Port created for Kubernetes service default/web by OpenStack LB Operator''\<rparr>"

definition sample_fip :: FloatingIP where
  "sample_fip = \<lparr>FIP_ID = ''f1'', FIP_FloatingIP = ''203.0.113.7'', FIP_PortID = ''p1'',
     FIP_Description = ''Floating IP for Kubernetes service default/web by OpenStack LB Operator''\<rparr>"

definition sample_subnet :: Subnet where
  "sample_subnet = \<lparr>Subnet_ID = ''s1'', Subnet_NetworkID = ''n1'', Subnet_CIDR = ''10.0.0.0/24''\<rparr>"

definition sample_secret :: Secret where
  "sample_secret = \<lparr>Data = Some [''OS_AUTH_URL'' \<mapsto> ''https://keystone'',
     ''OS_APPLICATION_CREDENTIAL_ID'' \<mapsto> ''id'', ''OS_APPLICATION_CREDENTIAL_SECRET'' \<mapsto> ''secret'']\<rparr>"

definition sample_k8s :: k8s_api where
  "sample_k8s = \<lparr>
     k8s_GetLB = (\<lambda>h k. Inr sample_lb),
     k8s_GetSvc = (\<lambda>h k. Inr sample_svc),
     k8s_GetSecret = (\<lambda>h k. Inr sample_secret),
     k8s_ListLBs = (\<lambda>h. Inr [sample_lb]),
     k8s_ListSvcs = (\<lambda>h. Inr [sample_svc]),
     k8s_Update = (\<lambda>h obj. Inr obj),
     k8s_StatusUpdate = (\<lambda>h lb. Inr lb),
     k8s_PatchSvc = (\<lambda>h svc p. None),
     k8s_Now = (\<lambda>h. 7)\<rparr>"

definition sample_gopher :: gophercloud where
  "sample_gopher = \<lparr>
     os_NewClient = (\<lambda>h url. Inr \<lparr>pc_Endpoint = url, pc_Transport = None\<rparr>),
     os_Authenticate = (\<lambda>h pc ao. None),
     os_NewNetworkV2 = (\<lambda>h pc region. Inr (ServiceClient ''net'')),
     fip_Create = (\<lambda>h c opts. Inr sample_fip),
     fip_Get = (\<lambda>h c i. Inr sample_fip),
     fip_List = (\<lambda>h c p. Inr (Page ''fips'')),
     fip_Delete = (\<lambda>h c i. None),
     fip_Extract = (\<lambda>p. Inr [sample_fip]),
     port_Create = (\<lambda>h c opts. Inr sample_port),
     port_Get = (\<lambda>h c i. Inr sample_port),
     port_List = (\<lambda>h c. Inr (Page ''ports'')),
     port_Delete = (\<lambda>h c i. None),
     port_Extract = (\<lambda>p. Inr [sample_port]),
     subnet_List = (\<lambda>h c. Inr (Page ''subnets'')),
     subnet_Extract = (\<lambda>p. Inr [sample_subnet]),
     tags_List = (\<lambda>h c rt i. Inr [''managed-by=openstack-lb-operator'']),
     tags_ReplaceAll = (\<lambda>h c rt i tags. None)\<rparr>"

definition sample_sys :: os_api where
  "sample_sys = \<lparr>
     os_Getenv = (\<lambda>name. []),
     map_range = (\<lambda>m. m),
     os_SystemCertPool = (\<lambda>h. Inr [''system'']),
     os_Stat = (\<lambda>h p. Inr False),
     os_ReadFile = (\<lambda>h p. Inr ''PEM''),
     os_WalkDir = (\<lambda>h p. []),
     pem_ok = (\<lambda>s. s = ''PEM'')\<rparr>"

definition sample_env :: env where
  "sample_env = \<lparr>k8s = sample_k8s, gopher = sample_gopher, lib = ref_library, sys = sample_sys\<rparr>"

text \<open>The client those answers give, and the calls of a cleanup of the service with it.\<close>

definition sample_net :: ServiceClient where
  "sample_net = ServiceClient ''net''"

definition cleanup_trace :: "event list" where
  "cleanup_trace =
     [EFipList sample_net [] (Inr (Page ''fips'')), EPortList sample_net (Inr (Page ''ports'')),
      EFipGet sample_net ''f1'' (Inr sample_fip),
      ETagsList sample_net ''floatingips'' ''f1'' (Inr [''managed-by=openstack-lb-operator'']),
      EFipDelete sample_net ''f1'' None,
      EPortGet sample_net ''p1'' (Inr sample_port),
      ETagsList sample_net ''ports'' ''p1'' (Inr [''managed-by=openstack-lb-operator'']),
      EPortDelete sample_net ''p1'' None]"

text \<open>The same world with the service being deleted.\<close>

definition sample_dying :: Service where
  "sample_dying = sample_svc\<lparr>svcMeta := (sample_meta ''web'')\<lparr>
     Finalizers := [''openstack.jacero.io/service-finalizer''], DeletionTimestamp := Some 5\<rparr>\<rparr>"

definition dying_env :: env where
  "dying_env = sample_env\<lparr>k8s := sample_k8s\<lparr>k8s_GetSvc := \<lambda>h k. Inr sample_dying\<rparr>\<rparr>"

lemmas sample_defs =
  sample_env_def sample_k8s_def sample_gopher_def sample_sys_def ref_library_def sample_svc_def
  sample_lb_def sample_port_def sample_fip_def sample_subnet_def sample_secret_def sample_meta_def

lemma sample_env_lib [simp]: "lib sample_env = ref_library"
  by (simp add: sample_env_def)

lemma sample_env_simps [simp]:
  "k8s sample_env = sample_k8s" "gopher sample_env = sample_gopher" "sys sample_env = sample_sys"
  by (simp_all add: sample_env_def)

lemma dying_env_simps [simp]:
  "gopher dying_env = sample_gopher" "lib dying_env = ref_library" "sys dying_env = sample_sys"
  "k8s dying_env = sample_k8s\<lparr>k8s_GetSvc := \<lambda>h k. Inr sample_dying\<rparr>"
  by (simp_all add: dying_env_def sample_env_def)

lemma sample_sys_range [simp]: "range_spec sample_sys"
  by (simp add: sample_sys_def range_spec_def)

end
