(* ===== verification/Go_Net.thy ===== *)
theory Go_Net
  imports Prelude "HOL-Library.Word"
begin

text \<open>
  The part of Go's standard library package \<open>net\<close> that \<open>DetectNetworkForIP\<close> calls:
  \<open>net.ParseIP\<close>, \<open>net.ParseCIDR\<close> and \<open>(*IPNet).Contains\<close> (Go 1.23, where parsing is done by
  \<open>net/netip\<close>). An address is its list of bytes, 4 or 16 of them; a parse error is
  \<^term>\<open>None\<close>, since the operator only looks at whether parsing failed.

  The theorem at the end says what \<open>Contains\<close> computes: membership by the leading \<open>n\<close> bits.
\<close>

unbundle bit_operations_syntax

type_synonym byte = "8 word"
type_synonym IP = "byte list"

section \<open>Parsing addresses\<close>

definition is_digit :: "char \<Rightarrow> bool" where
  "is_digit c \<longleftrightarrow> 48 \<le> (of_char c :: nat) \<and> (of_char c :: nat) \<le> 57"

definition digit_val :: "char \<Rightarrow> nat" where
  "digit_val c = of_char c - 48"

text \<open>
  \<open>parseIPv4Fields\<close>: the loop over the bytes with the fields read so far, the current value, its
  number of digits, and the byte before (\<^term>\<open>None\<close> at the start).
\<close>

fun parseIPv4Fields :: "string \<Rightarrow> nat list \<Rightarrow> nat \<Rightarrow> nat \<Rightarrow> char option \<Rightarrow> nat list option" where
  "parseIPv4Fields [] fields v digLen prev =
     (if length fields < 3 then None else Some (fields @ [v]))"
| "parseIPv4Fields (c # s) fields v digLen prev =
     (if is_digit c then
        if digLen = 1 \<and> v = 0 then None
        else if 255 < v * 10 + digit_val c then None
        else parseIPv4Fields s fields (v * 10 + digit_val c) (digLen + 1) (Some c)
      else if c = CHR ''.'' then
        if prev = None \<or> s = [] \<or> prev = Some (CHR ''.'') then None
        else if length fields = 3 then None
        else parseIPv4Fields s (fields @ [v]) 0 0 (Some c)
      else None)"

definition bytes_of :: "nat list \<Rightarrow> IP" where
  "bytes_of ns = map of_nat ns"

definition parseIPv4 :: "string \<Rightarrow> IP option" where
  "parseIPv4 s = map_option bytes_of (parseIPv4Fields s [] 0 0 None)"

definition hex_val :: "char \<Rightarrow> nat option" where
  "hex_val c =
     (let n = of_char c :: nat in
      if 48 \<le> n \<and> n \<le> 57 then Some (n - 48)
      else if 97 \<le> n \<and> n \<le> 102 then Some (n - 87)
      else if 65 \<le> n \<and> n \<le> 70 then Some (n - 55)
      else None)"

text \<open>
  One hexadecimal group: its value, the number of digits and the rest of the input;
  \<^term>\<open>None\<close> for more than four digits or a value above \<open>0xFFFF\<close>.
\<close>

fun hex_group :: "string \<Rightarrow> nat \<Rightarrow> nat \<Rightarrow> (nat \<times> nat \<times> string) option" where
  "hex_group [] acc off = Some (acc, off, [])"
| "hex_group (c # s) acc off =
     (case hex_val c of
        None \<Rightarrow> Some (acc, off, c # s)
      | Some d \<Rightarrow>
          if 3 < off then None
          else if 65535 < acc * 16 + d then None
          else hex_group s (acc * 16 + d) (off + 1))"

text \<open>
  The loop of \<open>parseIPv6\<close>: the bytes stored so far (their number is the loop's \<open>i\<close>, two more
  in every round, so eight rounds are enough), the position of the ellipsis, the rest of the input.
  A result is the bytes, the ellipsis and the input left over.
\<close>

fun parseIPv6Loop ::
  "nat \<Rightarrow> string \<Rightarrow> nat list \<Rightarrow> nat option \<Rightarrow> (nat list \<times> nat option \<times> string) option" where
  "parseIPv6Loop 0 s ip ell = Some (ip, ell, s)"
| "parseIPv6Loop (Suc n) s ip ell =
     (case hex_group s 0 0 of
        None \<Rightarrow> None
      | Some (acc, off, rest) \<Rightarrow>
          if off = 0 then None
          else if rest \<noteq> [] \<and> hd rest = CHR ''.'' then
            if ell = None \<and> length ip \<noteq> 12 then None
            else if 16 < length ip + 4 then None
            else (case parseIPv4Fields s [] 0 0 None of
                    None \<Rightarrow> None
                  | Some fs \<Rightarrow> Some (ip @ fs, ell, []))
          else
            let ip' = ip @ [acc div 256, acc mod 256] in
            case rest of
              [] \<Rightarrow> Some (ip', ell, [])
            | c # s1 \<Rightarrow>
                if c \<noteq> CHR '':'' then None
                else (case s1 of
                        [] \<Rightarrow> None
                      | d # s2 \<Rightarrow>
                          if d = CHR '':'' then
                            if ell \<noteq> None then None
                            else if s2 = [] then Some (ip', Some (length ip'), [])
                            else parseIPv6Loop n s2 ip' (Some (length ip'))
                          else parseIPv6Loop n s1 ip' ell))"

text \<open>Insert the zeros the ellipsis stands for; reject an address that is too short or too long.\<close>

definition expand_ellipsis :: "nat list \<Rightarrow> nat option \<Rightarrow> nat list option" where
  "expand_ellipsis ip ell =
     (if length ip < 16 then
        case ell of
          None \<Rightarrow> None
        | Some e \<Rightarrow> Some (take e ip @ replicate (16 - length ip) 0 @ drop e ip)
      else if ell \<noteq> None then None
      else Some ip)"

text \<open>
  \<open>netip.ParseAddr\<close> restricted to what its two callers accept: an address with a zone is an
  error in both, so any \<open>%\<close> in an IPv6 address is rejected.
\<close>

definition parseIPv6 :: "string \<Rightarrow> IP option" where
  "parseIPv6 s =
     (if CHR ''%'' \<in> set s then None
      else
        let (ell, s') = (if prefix ''::'' s then (Some 0, drop 2 s) else (None, s)) in
        if ell \<noteq> None \<and> s' = [] then Some (replicate 16 0)
        else (case parseIPv6Loop 8 s' [] ell of
                None \<Rightarrow> None
              | Some (ip, ell', rest) \<Rightarrow>
                  if rest \<noteq> [] then None
                  else map_option bytes_of (expand_ellipsis ip ell')))"

definition ParseAddr :: "string \<Rightarrow> IP option" where
  "ParseAddr s =
     (case List.find (\<lambda>c. c = CHR ''.'' \<or> c = CHR '':'' \<or> c = CHR ''%'') s of
        None \<Rightarrow> None
      | Some c \<Rightarrow>
          if c = CHR ''.'' then parseIPv4 s
          else if c = CHR '':'' then parseIPv6 s
          else None)"

definition v4InV6Prefix :: IP where
  "v4InV6Prefix = replicate 10 0 @ [255, 255]"

definition As16 :: "IP \<Rightarrow> IP" where
  "As16 ip = (if length ip = 4 then v4InV6Prefix @ ip else ip)"

definition ParseIP :: "string \<Rightarrow> IP option" where
  "ParseIP s = map_option As16 (ParseAddr s)"

section \<open>Networks\<close>

record IPNet =
  netIP :: IP
  netMask :: "byte list"

text \<open>\<open>dtoi\<close>: the decimal number a string starts with, if any, below \<open>0xFFFFFF\<close>.\<close>

fun dtoi_loop :: "string \<Rightarrow> nat \<Rightarrow> nat \<Rightarrow> (nat \<times> nat) option" where
  "dtoi_loop [] n i = (if i = 0 then None else Some (n, i))"
| "dtoi_loop (c # s) n i =
     (if is_digit c then
        if 16777215 \<le> n * 10 + digit_val c then None
        else dtoi_loop s (n * 10 + digit_val c) (i + 1)
      else if i = 0 then None else Some (n, i))"

text \<open>\<open>CIDRMask\<close>: \<open>n\<close> one bits followed by zeros, byte by byte.\<close>

definition mask_byte :: "nat \<Rightarrow> byte" where
  "mask_byte n = (if 8 \<le> n then 255 else NOT (drop_bit n 255))"

fun CIDRMask :: "nat \<Rightarrow> nat \<Rightarrow> byte list" where
  "CIDRMask n 0 = []"
| "CIDRMask n (Suc len) = mask_byte n # CIDRMask (n - 8) len"

definition and_bytes :: "byte list \<Rightarrow> byte list \<Rightarrow> byte list" where
  "and_bytes xs ys = map2 (AND) xs ys"

definition To4 :: "IP \<Rightarrow> IP option" where
  "To4 ip =
     (if length ip = 4 then Some ip
      else if length ip = 16 \<and> take 12 ip = v4InV6Prefix then Some (drop 12 ip)
      else None)"

text \<open>\<open>(IP).Mask\<close>; the empty address stands for its nil result.\<close>

definition IP_Mask :: "IP \<Rightarrow> byte list \<Rightarrow> IP" where
  "IP_Mask ip msk =
     (let msk' = (if length msk = 16 \<and> length ip = 4 \<and> list_all (\<lambda>b. b = 255) (take 12 msk)
                   then drop 12 msk else msk);
          ip' = (if length msk' = 4 \<and> length ip = 16 \<and> take 12 ip = v4InV6Prefix
                 then drop 12 ip else ip)
      in if length ip' \<noteq> length msk' then [] else and_bytes ip' msk')"

definition cut_slash :: "string \<Rightarrow> (string \<times> string) option" where
  "cut_slash s = (case strings_Index s ''/'' of
                    None \<Rightarrow> None
                  | Some i \<Rightarrow> Some (take i s, drop (Suc i) s))"

definition ParseCIDR :: "string \<Rightarrow> IPNet option" where
  "ParseCIDR s =
     (case cut_slash s of
        None \<Rightarrow> None
      | Some (addr, msk) \<Rightarrow>
          (case ParseAddr addr of
             None \<Rightarrow> None
           | Some ip \<Rightarrow>
               (case dtoi_loop msk 0 0 of
                  None \<Rightarrow> None
                | Some (n, i) \<Rightarrow>
                    if i \<noteq> length msk \<or> 8 * length ip < n then None
                    else let m = CIDRMask n (length ip) in
                         Some \<lparr>netIP = IP_Mask (As16 ip) m, netMask = m\<rparr>)))"

definition networkNumberAndMask :: "IPNet \<Rightarrow> (IP \<times> byte list) option" where
  "networkNumberAndMask n =
     (case (case To4 (netIP n) of
              Some ip \<Rightarrow> Some ip
            | None \<Rightarrow> if length (netIP n) = 16 then Some (netIP n) else None) of
        None \<Rightarrow> None
      | Some ip \<Rightarrow>
          if length (netMask n) = 4 then (if length ip \<noteq> 4 then None else Some (ip, netMask n))
          else if length (netMask n) = 16 then
            Some (ip, if length ip = 4 then drop 12 (netMask n) else netMask n)
          else None)"

definition IPNet_Contains :: "IPNet \<Rightarrow> IP \<Rightarrow> bool" where
  "IPNet_Contains n ip =
     (let (nn, m) = (case networkNumberAndMask n of None \<Rightarrow> ([], []) | Some x \<Rightarrow> x);
          x = (case To4 ip of Some y \<Rightarrow> y | None \<Rightarrow> ip)
      in length x = length nn \<and> and_bytes nn m = and_bytes x m)"

section \<open>What Contains computes\<close>

text \<open>The bits of an address, most significant first.\<close>

definition byte_bits :: "byte \<Rightarrow> bool list" where
  "byte_bits b = map (bit b) [7, 6, 5, 4, 3, 2, 1, 0]"

definition ip_bits :: "IP \<Rightarrow> bool list" where
  "ip_bits ip = concat (map byte_bits ip)"

lemma length_byte_bits [simp]: "length (byte_bits b) = 8"
  by (simp add: byte_bits_def)

lemma bit_mask_byte: "i < 8 \<Longrightarrow> bit (mask_byte n) i \<longleftrightarrow> 8 \<le> i + n"
proof -
  assume i: "i < 8"
  have m: "(255 :: byte) = mask 8" by (simp add: mask_eq_exp_minus_1)
  show ?thesis using i
    by (auto simp: mask_byte_def m bit_simps)
qed

lemma nth_byte_bits: "i < 8 \<Longrightarrow> byte_bits b ! i = bit b (7 - i)"
proof -
  assume "i < 8"
  then have "i \<in> {0,1,2,3,4,5,6,7}" by auto
  then show ?thesis by (auto simp: byte_bits_def)
qed

lemma mask_byte_eq_iff:
  "(a AND mask_byte n = b AND mask_byte n) \<longleftrightarrow> take n (byte_bits a) = take n (byte_bits b)"
  for a b :: byte
proof -
  have "(a AND mask_byte n = b AND mask_byte n) \<longleftrightarrow> (\<forall>i<8. 8 \<le> i + n \<longrightarrow> bit a i = bit b i)"
    by (auto simp: bit_eq_iff bit_mask_byte bit_simps)
  also have "\<dots> \<longleftrightarrow> (\<forall>j<8. j < n \<longrightarrow> bit a (7 - j) = bit b (7 - j))"
  proof safe
    fix j :: nat assume "\<forall>i<8. 8 \<le> i + n \<longrightarrow> bit a i = bit b i" "j < 8" "j < n" 
    then show "bit a (7 - j)  \<Longrightarrow> bit b (7 - j)" "bit b (7 - j)  \<Longrightarrow> bit a (7 - j)" by auto
  next
    fix i :: nat assume *: "\<forall>j<8. j < n \<longrightarrow> bit a (7 - j) = bit b (7 - j)" and "i < 8" "8 \<le> i + n"
    then have "7 - i < 8" "7 - i < n" "7 - (7 - i) = i" by auto
    with * show "bit a i \<Longrightarrow> bit b i" "bit b i \<Longrightarrow> bit a i" by metis+
  qed
  also have "\<dots> \<longleftrightarrow> take n (byte_bits a) = take n (byte_bits b)"
    by (auto simp: list_eq_iff_nth_eq nth_byte_bits)
  finally show ?thesis .
qed

lemma length_CIDRMask [simp]: "length (CIDRMask n k) = k"
  by (induction n k rule: CIDRMask.induct) auto

lemma masked_eq_iff:
  "length a = k \<Longrightarrow> length b = k \<Longrightarrow> and_bytes a (CIDRMask n k) = and_bytes b (CIDRMask n k) \<longleftrightarrow> take n (ip_bits a) = take n (ip_bits b)"
proof (induction k arbitrary: n a b)
  case 0
  then show ?case by (simp add: and_bytes_def ip_bits_def)
next
  case (Suc k)
  then obtain x a' y b' where ab: "a = x # a'" "b = y # b'" "length a' = k" "length b' = k"
    by (metis length_Suc_conv)
  with Suc.IH [of a' b' "n - 8"] show ?case
    by (simp add: and_bytes_def ip_bits_def mask_byte_eq_iff)
qed

lemma and_bytes_idem: "and_bytes (and_bytes a m) m = and_bytes a m"
proof (induction a arbitrary: m)
  case (Cons x a) then show ?case by (cases m) (auto simp: and_bytes_def)
qed (simp add: and_bytes_def)

lemma length_and_bytes [simp]: "length (and_bytes a m) = min (length a) (length m)"
  by (simp add: and_bytes_def)

text \<open>
  An IPv4 subnet in CIDR notation: its address and the number of leading bits that count.
\<close>

definition cidr4 :: "string \<Rightarrow> (IP \<times> nat) option" where
  "cidr4 s =
     (case cut_slash s of
        None \<Rightarrow> None
      | Some (addr, msk) \<Rightarrow>
          (case (ParseAddr addr, dtoi_loop msk 0 0) of
             (Some a, Some (n, i)) \<Rightarrow>
               if length a = 4 \<and> i = length msk \<and> n \<le> 32 then Some (a, n) else None
           | _ \<Rightarrow> None))"

text \<open>
  An IPv4 address is in a subnet, as \<open>ParseCIDR\<close> and \<open>Contains\<close> decide it, exactly when its
  leading \<open>n\<close> bits are those of the subnet's address, \<open>n\<close> being the number behind the slash.
\<close>

lemma Contains_leading_bits:
  assumes "cut_slash s = Some (addr, msk)" and "ParseAddr addr = Some a" and "length a = 4"
    and "dtoi_loop msk 0 0 = Some (n, length msk)" and "n \<le> 32"
  shows "\<exists>net. ParseCIDR s = Some net
    \<and> (\<forall>ip. IPNet_Contains net ip \<longleftrightarrow>
          (\<exists>x. To4 ip = Some x \<and> take n (ip_bits x) = take n (ip_bits a)))"
proof -
  let ?m = "CIDRMask n 4"
  have net: "ParseCIDR s = Some \<lparr>netIP = and_bytes a ?m, netMask = ?m\<rparr>"
    using assms by (simp add: ParseCIDR_def Let_def As16_def IP_Mask_def v4InV6Prefix_def)
  have "IPNet_Contains \<lparr>netIP = and_bytes a ?m, netMask = ?m\<rparr> ip \<longleftrightarrow>
      (\<exists>x. To4 ip = Some x \<and> take n (ip_bits x) = take n (ip_bits a))" for ip
  proof (cases "To4 ip")
    case None
    then have "length ip \<noteq> 4" by (auto simp: To4_def split: if_splits)
    with None assms(3) show ?thesis
      by (simp add: IPNet_Contains_def networkNumberAndMask_def To4_def [of "and_bytes a ?m"])
  next
    case (Some x)
    then have "length x = 4" by (auto simp: To4_def split: if_splits)
    with Some assms(3) masked_eq_iff [of a 4 x n] show ?thesis
      by (auto simp: IPNet_Contains_def networkNumberAndMask_def To4_def [of "and_bytes a ?m"] and_bytes_idem)
  qed
  with net show ?thesis by blast
qed

lemma cidr4_Contains:
  assumes "cidr4 s = Some (a, n)"
  shows "\<exists>net. ParseCIDR s = Some net
    \<and> (\<forall>ip. IPNet_Contains net ip \<longleftrightarrow>
          (\<exists>x. To4 ip = Some x \<and> take n (ip_bits x) = take n (ip_bits a)))"
proof -
  from assms obtain addr msk where "cut_slash s = Some (addr, msk)" "ParseAddr addr = Some a"
    "length a = 4" "dtoi_loop msk 0 0 = Some (n, length msk)" "n \<le> 32"
    by (auto simp: cidr4_def split: option.splits prod.splits if_splits)
  then show ?thesis by (rule Contains_leading_bits)
qed

end
