(* ===== verification/Openstack_Client.thy ===== *)
theory Openstack_Client
  imports Sample_World Go_Net
begin

text \<open>
  The OpenStack client of \<open>src/pkg/openstack\<close>: the interface \<open>Client\<close> (interfaces.go) as a
  record of its methods, the methods of \<open>ClientImpl\<close> (network.go, port.go, floatingip.go,
  interfaces.go) over a gophercloud service client, and the construction of a client from a
  credentials secret, custom CA certificates included (client.go).

  A Go method with results and an error returns \<open>error + results\<close>; the callers never use the
  results next to an error.
\<close>

section \<open>The interface\<close>

record Client =
  Client_DetectNetworkForIP :: "string \<Rightarrow> (error + string \<times> string) io"
  Client_GetAllFloatingIPs :: "(error + FloatingIP list) io"
  Client_GetAllPorts :: "(error + Port list) io"
  Client_GetFloatingIPDetails :: "string \<Rightarrow> (error + FloatingIP) io"
  Client_CreatePort ::
    "string \<Rightarrow> string \<Rightarrow> string \<Rightarrow> string \<Rightarrow> string \<Rightarrow> string \<Rightarrow> string \<Rightarrow> (error + string) io"
  Client_GetPort :: "string \<Rightarrow> (error + bool) io"
  Client_DeletePort :: "string \<Rightarrow> error option io"
  Client_GetManagedPorts :: "string \<Rightarrow> string \<Rightarrow> (error + Port list) io"
  Client_CreateFloatingIP ::
    "string \<Rightarrow> string \<Rightarrow> string \<Rightarrow> string \<Rightarrow> string \<Rightarrow> (error + string \<times> string) io"
  Client_GetFloatingIP :: "string \<Rightarrow> (error + bool) io"
  Client_DeleteFloatingIP :: "string \<Rightarrow> error option io"
  Client_GetFloatingIPByPortID :: "string \<Rightarrow> (error + string \<times> string) io"
  Client_GetManagedFloatingIPs :: "string \<Rightarrow> string \<Rightarrow> (error + FloatingIP list) io"

section \<open>Networks\<close>

fun DetectNetworkForIP_loop :: "IP \<Rightarrow> Subnet list \<Rightarrow> (string \<times> string) option" where
  "DetectNetworkForIP_loop ip [] = None"
| "DetectNetworkForIP_loop ip (subnet # subnets) =
     (case ParseCIDR (Subnet_CIDR subnet) of
        None \<Rightarrow> DetectNetworkForIP_loop ip subnets
      | Some cidr \<Rightarrow>
          if IPNet_Contains cidr ip then Some (Subnet_NetworkID subnet, Subnet_ID subnet)
          else DetectNetworkForIP_loop ip subnets)"

definition DetectNetworkForIP :: "env \<Rightarrow> ServiceClient \<Rightarrow> string \<Rightarrow> (error + string \<times> string) io" where
  "DetectNetworkForIP E c ipAddress =
     (case ParseIP ipAddress of
        None \<Rightarrow> ret (Inl (Errorf (''invalid IP address: '' @ ipAddress)))
      | Some ip \<Rightarrow> do {
          allPages \<leftarrow> SubnetList E c;
          case allPages of
            Inl e \<Rightarrow> ret (Inl (ErrorfW ''failed to list subnets'' e))
          | Inr pages \<Rightarrow>
              (case subnet_Extract (gopher E) pages of
                 Inl e \<Rightarrow> ret (Inl (ErrorfW ''failed to extract subnets'' e))
               | Inr allSubnets \<Rightarrow>
                   (case DetectNetworkForIP_loop ip allSubnets of
                      Some r \<Rightarrow> ret (Inr r)
                    | None \<Rightarrow> ret (Inl (Errorf (''no subnet found containing IP '' @ ipAddress)))))
        })"

section \<open>Ports\<close>

text \<open>The tag map built by \<open>CreatePort\<close> and, with the other resource type, by \<open>CreateFloatingIP\<close>.\<close>

definition resource_tags :: "env \<Rightarrow> string \<Rightarrow> string \<Rightarrow> string \<Rightarrow> (string \<times> string) list" where
  "resource_tags E resourceType serviceNamespace serviceName =
     [(TagManagedBy, TagManagedByValue),
      (TagServiceNamespace, serviceNamespace),
      (TagServiceName, serviceName),
      (TagResourceType, resourceType)]
     @ (let clusterName = os_Getenv (sys E) ''CLUSTER_NAME'' in
        if clusterName \<noteq> [] then [(TagClusterName, clusterName)] else [])"

definition CreatePort ::
  "env \<Rightarrow> ServiceClient \<Rightarrow> string \<Rightarrow> string \<Rightarrow> string \<Rightarrow> string \<Rightarrow> string \<Rightarrow> string \<Rightarrow> string \<Rightarrow>
     (error + string) io" where
  "CreatePort E c networkID subnetID portName ipAddress description serviceNamespace serviceName =
     (let tags = resource_tags E ResourceTypePort serviceNamespace serviceName;
          portCreateOpts = \<lparr>pco_NetworkID = networkID, pco_Name = portName,
            pco_FixedIPs = [(subnetID, ipAddress)], pco_Description = description\<rparr>
      in do {
        port \<leftarrow> PortCreate E c portCreateOpts;
        case port of
          Inl e \<Rightarrow> ret (Inl (ErrorfW ''failed to create port'' e))
        | Inr p \<Rightarrow> do {
            _ \<leftarrow> TagsReplaceAll E c ''ports'' (Port_ID p) (convertMapToTags E tags);
            ret (Inr (Port_ID p))
          }
      })"

definition checkPortExists :: "env \<Rightarrow> ServiceClient \<Rightarrow> string \<Rightarrow> (error + bool) io" where
  "checkPortExists E c portID = do {
     r \<leftarrow> PortGet E c portID;
     case r of
       Inl e \<Rightarrow> if IsNotFoundError e then ret (Inr False)
                else ret (Inl (ErrorfW (''failed to get port '' @ portID) e))
     | Inr _ \<Rightarrow> ret (Inr True)
   }"

definition GetPort :: "env \<Rightarrow> ServiceClient \<Rightarrow> string \<Rightarrow> (error + bool) io" where
  "GetPort E c portID = do {
     r \<leftarrow> PortGet E c portID;
     case r of
       Inl e \<Rightarrow> if IsNotFoundError e then ret (Inr False)
                else ret (Inl (ErrorfW (''failed to get port '' @ portID) e))
     | Inr _ \<Rightarrow> ret (Inr True)
   }"

definition DeletePort :: "env \<Rightarrow> ServiceClient \<Rightarrow> string \<Rightarrow> error option io" where
  "DeletePort E c portID =
     deleteResource E c ResourceTypePort portID (checkPortExists E) (PortDelete E c)"

definition GetManagedPorts :: "env \<Rightarrow> ServiceClient \<Rightarrow> string \<Rightarrow> string \<Rightarrow> (error + Port list) io" where
  "GetManagedPorts E c serviceNamespace serviceName =
     getManagedResources E c ResourceTypePort ''ports'' serviceNamespace serviceName
       (PortList E c) (port_Extract (gopher E)) Port_ID"

definition GetAllPorts :: "env \<Rightarrow> ServiceClient \<Rightarrow> (error + Port list) io" where
  "GetAllPorts E c = do {
     allPages \<leftarrow> PortList E c;
     case allPages of
       Inl e \<Rightarrow> ret (Inl (ErrorfW ''failed to list ports'' e))
     | Inr pages \<Rightarrow>
         (case port_Extract (gopher E) pages of
            Inl e \<Rightarrow> ret (Inl (ErrorfW ''failed to extract ports'' e))
          | Inr allPorts \<Rightarrow> ret (Inr allPorts))
   }"

section \<open>Floating IPs\<close>

definition CreateFloatingIP_impl ::
  "env \<Rightarrow> ServiceClient \<Rightarrow> string \<Rightarrow> string \<Rightarrow> string \<Rightarrow> string \<Rightarrow> string \<Rightarrow>
     (error + string \<times> string) io" where
  "CreateFloatingIP_impl E c networkID portID description serviceNamespace serviceName =
     (let tags = resource_tags E ResourceTypeFloatingIP serviceNamespace serviceName;
          floatingIPCreateOpts = \<lparr>fco_FloatingNetworkID = networkID, fco_PortID = portID,
            fco_Description = description\<rparr>
      in do {
        floatingIP \<leftarrow> FipCreate E c floatingIPCreateOpts;
        case floatingIP of
          Inl e \<Rightarrow> ret (Inl (ErrorfW ''failed to create floating IP'' e))
        | Inr fip \<Rightarrow> do {
            _ \<leftarrow> TagsReplaceAll E c ''floatingips'' (FIP_ID fip) (convertMapToTags E tags);
            ret (Inr (FIP_ID fip, FIP_FloatingIP fip))
          }
      })"

definition checkFloatingIPExists :: "env \<Rightarrow> ServiceClient \<Rightarrow> string \<Rightarrow> (error + bool) io" where
  "checkFloatingIPExists E c floatingIPID = do {
     r \<leftarrow> FipGet E c floatingIPID;
     case r of
       Inl e \<Rightarrow> if IsNotFoundError e then ret (Inr False)
                else ret (Inl (ErrorfW (''failed to get floating IP '' @ floatingIPID) e))
     | Inr _ \<Rightarrow> ret (Inr True)
   }"

definition GetFloatingIP :: "env \<Rightarrow> ServiceClient \<Rightarrow> string \<Rightarrow> (error + bool) io" where
  "GetFloatingIP E c floatingIPID = do {
     r \<leftarrow> FipGet E c floatingIPID;
     case r of
       Inl e \<Rightarrow> if IsNotFoundError e then ret (Inr False)
                else ret (Inl (ErrorfW (''failed to get floating IP '' @ floatingIPID) e))
     | Inr _ \<Rightarrow> ret (Inr True)
   }"

definition GetFloatingIPByPortID ::
  "env \<Rightarrow> ServiceClient \<Rightarrow> string \<Rightarrow> (error + string \<times> string) io" where
  "GetFloatingIPByPortID E c portID = do {
     allPages \<leftarrow> FipList E c portID;
     case allPages of
       Inl e \<Rightarrow> ret (Inl (ErrorfW ''failed to list floating IPs'' e))
     | Inr pages \<Rightarrow>
         (case fip_Extract (gopher E) pages of
            Inl e \<Rightarrow> ret (Inl (ErrorfW ''failed to extract floating IPs'' e))
          | Inr allFIPs \<Rightarrow>
              (case allFIPs of
                 fip # _ \<Rightarrow> ret (Inr (FIP_ID fip, FIP_FloatingIP fip))
               | [] \<Rightarrow> ret (Inr ('''', ''''))))
   }"

definition DeleteFloatingIP :: "env \<Rightarrow> ServiceClient \<Rightarrow> string \<Rightarrow> error option io" where
  "DeleteFloatingIP E c floatingIPID =
     deleteResource E c ResourceTypeFloatingIP floatingIPID (checkFloatingIPExists E) (FipDelete E c)"

definition GetManagedFloatingIPs ::
  "env \<Rightarrow> ServiceClient \<Rightarrow> string \<Rightarrow> string \<Rightarrow> (error + FloatingIP list) io" where
  "GetManagedFloatingIPs E c serviceNamespace serviceName =
     getManagedResources E c ResourceTypeFloatingIP ''floating IPs'' serviceNamespace serviceName
       (FipList E c '''') (fip_Extract (gopher E)) FIP_ID"

definition GetFloatingIPDetails :: "env \<Rightarrow> ServiceClient \<Rightarrow> string \<Rightarrow> (error + FloatingIP) io" where
  "GetFloatingIPDetails E c floatingIPID = do {
     fip \<leftarrow> FipGet E c floatingIPID;
     case fip of
       Inl e \<Rightarrow> ret (Inl (ErrorfW (''failed to get floating IP '' @ floatingIPID) e))
     | Inr f \<Rightarrow> ret (Inr f)
   }"

definition GetAllFloatingIPs :: "env \<Rightarrow> ServiceClient \<Rightarrow> (error + FloatingIP list) io" where
  "GetAllFloatingIPs E c = do {
     allPages \<leftarrow> FipList E c '''';
     case allPages of
       Inl e \<Rightarrow> ret (Inl (ErrorfW ''failed to list floating IPs'' e))
     | Inr pages \<Rightarrow>
         (case fip_Extract (gopher E) pages of
            Inl e \<Rightarrow> ret (Inl (ErrorfW ''failed to extract floating IPs'' e))
          | Inr allFIPs \<Rightarrow> ret (Inr allFIPs))
   }"

text \<open>\<open>ClientImpl\<close> behind the interface.\<close>

definition ClientImpl :: "env \<Rightarrow> ServiceClient \<Rightarrow> Client" where
  "ClientImpl E c = \<lparr>
     Client_DetectNetworkForIP = DetectNetworkForIP E c,
     Client_GetAllFloatingIPs = GetAllFloatingIPs E c,
     Client_GetAllPorts = GetAllPorts E c,
     Client_GetFloatingIPDetails = GetFloatingIPDetails E c,
     Client_CreatePort = CreatePort E c,
     Client_GetPort = GetPort E c,
     Client_DeletePort = DeletePort E c,
     Client_GetManagedPorts = GetManagedPorts E c,
     Client_CreateFloatingIP = CreateFloatingIP_impl E c,
     Client_GetFloatingIP = GetFloatingIP E c,
     Client_DeleteFloatingIP = DeleteFloatingIP E c,
     Client_GetFloatingIPByPortID = GetFloatingIPByPortID E c,
     Client_GetManagedFloatingIPs = GetManagedFloatingIPs E c\<rparr>"

section \<open>Creating a client\<close>

definition isCertName :: "string \<Rightarrow> bool" where
  "isCertName name =
     (let lowerName = strings_ToLower name in
      strings_HasSuffix lowerName ''.crt'' \<or> strings_HasSuffix lowerName ''.pem''
      \<or> strings_HasSuffix lowerName ''.cert''
      \<or> lowerName = ''ca-certificates'' \<or> lowerName = ''ca-bundle'')"

text \<open>\<open>AppendCertsFromPEM\<close> adds the certificates of a bundle it can parse and reports whether it could.\<close>

definition appendCerts :: "env \<Rightarrow> string \<Rightarrow> CertPool \<times> nat \<Rightarrow> CertPool \<times> nat" where
  "appendCerts E certs = (\<lambda>(rootCAs, certCount).
     if pem_ok (sys E) certs then (rootCAs @ [certs], certCount + 1) else (rootCAs, certCount))"

fun walkCerts :: "env \<Rightarrow> WalkEntry list \<Rightarrow> CertPool \<times> nat \<Rightarrow> (error + CertPool \<times> nat) io" where
  "walkCerts E [] st = ret (Inr st)"
| "walkCerts E (d # ds) st =
     (case we_err d of
        Some e \<Rightarrow> ret (Inl e)
      | None \<Rightarrow>
          if we_IsDir d then walkCerts E ds st
          else if isCertName (we_Name d) then do {
            certs \<leftarrow> ReadFile E (we_path d);
            case certs of
              Inl _ \<Rightarrow> walkCerts E ds st
            | Inr bytes \<Rightarrow> walkCerts E ds (appendCerts E bytes st)
          }
          else walkCerts E ds st)"

definition createHTTPTransport :: "env \<Rightarrow> (error + Transport option) io" where
  "createHTTPTransport E =
     (let caPath = os_Getenv (sys E) ''OPENSTACK_CA_CERT_PATH'' in
      if caPath = [] then ret (Inr None)
      else do {
        pool \<leftarrow> SystemCertPool E;
        fileInfo \<leftarrow> Stat E caPath;
        case fileInfo of
          Inl e \<Rightarrow> ret (Inl (ErrorfW (''failed to access CA path '' @ caPath) e))
        | Inr isDir \<Rightarrow>
            (let rootCAs = (case pool of Inl _ \<Rightarrow> [] | Inr p \<Rightarrow> p) in
             if isDir then do {
               h \<leftarrow> State_Monad.get;
               r \<leftarrow> walkCerts E (os_WalkDir (sys E) h caPath) (rootCAs, 0);
               case r of
                 Inl e \<Rightarrow> ret (Inl (ErrorfW ''error walking CA certificate directory'' e))
               | Inr (roots, certCount) \<Rightarrow> ret (Inr (Some \<lparr>RootCAs = roots\<rparr>))
             }
             else do {
               certs \<leftarrow> ReadFile E caPath;
               case certs of
                 Inl e \<Rightarrow> ret (Inl (ErrorfW (''failed to read CA certificate file '' @ caPath) e))
               | Inr bytes \<Rightarrow>
                   ret (Inr (Some \<lparr>RootCAs = fst (appendCerts E bytes (rootCAs, 0))\<rparr>))
             })
      })"

definition NewClient :: "env \<Rightarrow> string \<Rightarrow> string \<Rightarrow> (error + Client) io" where
  "NewClient E secretName secretNamespace = do {
     secret \<leftarrow> GetSecret E \<lparr>nnName = secretName, nnNamespace = secretNamespace\<rparr>;
     case secret of
       Inl e \<Rightarrow> ret (Inl (ErrorfW ''failed to get OpenStack credentials secret'' e))
     | Inr sec \<Rightarrow>
         (let authURL = gmap_index (Data sec) ''OS_AUTH_URL'';
              region = gmap_index (Data sec) ''OS_REGION_NAME'';
              appID = gmap_index (Data sec) ''OS_APPLICATION_CREDENTIAL_ID'';
              appSecret = gmap_index (Data sec) ''OS_APPLICATION_CREDENTIAL_SECRET''
          in
          if authURL = [] \<or> appID = [] \<or> appSecret = []
          then ret (Inl (Errorf ''missing required OpenStack credentials in secret''))
          else
            let authOpts = \<lparr>IdentityEndpoint = authURL, ApplicationCredentialID = appID,
                  ApplicationCredentialSecret = appSecret\<rparr>
            in do {
              transport \<leftarrow> createHTTPTransport E;
              case transport of
                Inl e \<Rightarrow> ret (Inl (ErrorfW ''failed to create HTTP transport'' e))
              | Inr tr \<Rightarrow> do {
                  providerClient \<leftarrow> NewProvider E (IdentityEndpoint authOpts);
                  case providerClient of
                    Inl e \<Rightarrow> ret (Inl (ErrorfW ''failed to create OpenStack provider client'' e))
                  | Inr pc0 \<Rightarrow>
                      (let pc = (if tr \<noteq> None then pc0\<lparr>pc_Transport := tr\<rparr> else pc0) in do {
                        err \<leftarrow> Authenticate E pc authOpts;
                        case err of
                          Some e \<Rightarrow> ret (Inl (ErrorfW ''failed to authenticate with OpenStack'' e))
                        | None \<Rightarrow> do {
                            networkClient \<leftarrow> NewNetworkV2 E pc region;
                            case networkClient of
                              Inl e \<Rightarrow> ret (Inl (ErrorfW ''failed to create OpenStack network client'' e))
                            | Inr nc \<Rightarrow> ret (Inr (ClientImpl E nc))
                          }
                      })
                }
            })
   }"

section \<open>Reading methods are safe\<close>

context audited begin

lemma safe_checkPortExists: "emits (checkPortExists E c i) (\<lambda>_. P)"
  unfolding checkPortExists_def by (intro safe_intros safe_calls)

lemma safe_checkFloatingIPExists: "emits (checkFloatingIPExists E c i) (\<lambda>_. P)"
  unfolding checkFloatingIPExists_def by (intro safe_intros safe_calls)

lemma safe_GetPort: "emits (GetPort E c i) (\<lambda>_. P)"
  unfolding GetPort_def by (intro safe_intros safe_calls)

lemma safe_GetFloatingIP: "emits (GetFloatingIP E c i) (\<lambda>_. P)"
  unfolding GetFloatingIP_def by (intro safe_intros safe_calls)

lemma safe_GetAllPorts: "emits (GetAllPorts E c) (\<lambda>_. P)"
  unfolding GetAllPorts_def by (intro safe_intros safe_calls)

lemma safe_GetAllFloatingIPs: "emits (GetAllFloatingIPs E c) (\<lambda>_. P)"
  unfolding GetAllFloatingIPs_def by (intro safe_intros safe_calls)

lemma safe_GetFloatingIPDetails: "emits (GetFloatingIPDetails E c i) (\<lambda>_. P)"
  unfolding GetFloatingIPDetails_def by (intro safe_intros safe_calls)

lemma safe_GetFloatingIPByPortID: "emits (GetFloatingIPByPortID E c i) (\<lambda>_. P)"
  unfolding GetFloatingIPByPortID_def
  by (intro safe_intros safe_calls) (simp add: safe_return split: list.split)

lemma safe_DetectNetworkForIP: "emits (DetectNetworkForIP E c ip) (\<lambda>_. P)"
  unfolding DetectNetworkForIP_def by (intro safe_intros safe_calls)

lemma safe_getManagedResources:
  assumes "emits listFunc (\<lambda>_. P)"
  shows "emits (getManagedResources E c rt rtn ns name listFunc extractFunc getIDFunc) (\<lambda>_. P)"
proof -
  have "emits (getManagedResources_loop E c rt ns name getIDFunc managed rs) (\<lambda>_. P)" for managed rs
    by (induction rs arbitrary: managed) (auto intro!: safe_return safe_bind safe_calls)
  then show ?thesis
    unfolding getManagedResources_def by (intro safe_intros assms)
qed

lemma safe_walkCerts: "emits (walkCerts E ds st) (\<lambda>_. P)"
proof (induction ds arbitrary: st)
  case Nil
  show ?case by (simp add: safe_return)
next
  case (Cons d ds)
  show ?case unfolding walkCerts.simps by (intro safe_intros safe_calls Cons.IH)
qed

lemma safe_get: "emits State_Monad.get (\<lambda>_. P)"
  by (simp add: emits_def P_Nil)

lemma safe_createHTTPTransport: "emits (createHTTPTransport E) (\<lambda>_. P)"
  unfolding createHTTPTransport_def by (intro safe_intros safe_calls safe_get safe_walkCerts)

lemma safe_NewClient: "emits (NewClient E sn sns) (\<lambda>_. P)"
  unfolding NewClient_def Let_def
  by (intro safe_intros safe_calls safe_createHTTPTransport)

end

section \<open>The contract of the interface\<close>

text \<open>
  A client is audited for a trace predicate when each of its methods only emits events that satisfy
  it. The controller's lemmas are proved once from this contract, for any implementation of the
  interface.
\<close>

locale audited_client = audited P for P :: "event list \<Rightarrow> bool" +
  fixes cl :: Client
  assumes safe_Client_DetectNetworkForIP: "emits (Client_DetectNetworkForIP cl ip) (\<lambda>_. P)"
    and safe_Client_GetAllFloatingIPs: "emits (Client_GetAllFloatingIPs cl) (\<lambda>_. P)"
    and safe_Client_GetAllPorts: "emits (Client_GetAllPorts cl) (\<lambda>_. P)"
    and safe_Client_GetFloatingIPDetails: "emits (Client_GetFloatingIPDetails cl i) (\<lambda>_. P)"
    and safe_Client_CreatePort:
      "emits (Client_CreatePort cl net sub pname ip descr ns name) (\<lambda>_. P)"
    and safe_Client_GetPort: "emits (Client_GetPort cl i) (\<lambda>_. P)"
    and safe_Client_DeletePort: "emits (Client_DeletePort cl i) (\<lambda>_. P)"
    and safe_Client_GetManagedPorts: "emits (Client_GetManagedPorts cl ns name) (\<lambda>_. P)"
    and safe_Client_CreateFloatingIP:
      "emits (Client_CreateFloatingIP cl net i descr ns name) (\<lambda>_. P)"
    and safe_Client_GetFloatingIP: "emits (Client_GetFloatingIP cl i) (\<lambda>_. P)"
    and safe_Client_DeleteFloatingIP: "emits (Client_DeleteFloatingIP cl i) (\<lambda>_. P)"
    and safe_Client_GetFloatingIPByPortID: "emits (Client_GetFloatingIPByPortID cl i) (\<lambda>_. P)"
    and safe_Client_GetManagedFloatingIPs: "emits (Client_GetManagedFloatingIPs cl ns name) (\<lambda>_. P)"
begin

lemmas safe_client =
  safe_Client_DetectNetworkForIP safe_Client_GetAllFloatingIPs safe_Client_GetAllPorts
  safe_Client_GetFloatingIPDetails safe_Client_CreatePort safe_Client_GetPort
  safe_Client_DeletePort safe_Client_GetManagedPorts safe_Client_CreateFloatingIP
  safe_Client_GetFloatingIP safe_Client_DeleteFloatingIP safe_Client_GetFloatingIPByPortID
  safe_Client_GetManagedFloatingIPs

end

text \<open>
  \<open>ClientImpl\<close> keeps the contract as soon as its four mutating methods do.
\<close>

context audited begin

lemma ClientImpl_audited:
  assumes "\<And>net sub pname ip descr ns name.
      emits (CreatePort E c net sub pname ip descr ns name) (\<lambda>_. P)"
    and "\<And>net i descr ns name. emits (CreateFloatingIP_impl E c net i descr ns name) (\<lambda>_. P)"
    and "\<And>i. emits (DeletePort E c i) (\<lambda>_. P)"
    and "\<And>i. emits (DeleteFloatingIP E c i) (\<lambda>_. P)"
  shows "audited_client P (ClientImpl E c)"
  by unfold_locales
    (simp_all add: ClientImpl_def assms GetManagedPorts_def GetManagedFloatingIPs_def
      safe_GetPort safe_GetFloatingIP safe_GetAllPorts safe_GetAllFloatingIPs
      safe_GetFloatingIPDetails safe_GetFloatingIPByPortID safe_DetectNetworkForIP
      safe_getManagedResources safe_calls)

end

section \<open>Deletions are guarded\<close>

text \<open>
  What a deletion emits: the existence check, then the tags, then, only if the tags could not be
  read or carry the ownership tag, the deletion itself.
\<close>

lemma tag_check_emits:
  assumes "\<And>tags. owner_check c rt i (Some (ETagsList c rt i tags)) \<Longrightarrow>
           emits m (\<lambda>r ev. guarded_from (Some (ETagsList c rt i tags)) ev)"
  shows "emits (TagsList E c rt i \<bind> (\<lambda>tags.
      if (case tags of Inl _ \<Rightarrow> False | Inr ts \<Rightarrow> \<not> isResourceOwnedByOperator ts)
      then ret a else m)) (\<lambda>_. delete_guarded)"
  unfolding TagsList_def
proof (rule emits_bind, rule emits_call)
  fix tags :: "error + string list"
  show "emits (if (case tags of Inl _ \<Rightarrow> False | Inr ts \<Rightarrow> \<not> isResourceOwnedByOperator ts)
      then ret a else m) (\<lambda>b e2. delete_guarded ([ETagsList c rt i tags] @ e2))"
    using assms [of tags]
    by (auto intro!: emits_return simp: delete_guarded_def split: sum.splits if_splits)
qed

lemma deleteResource_guarded:
  assumes "\<And>c' i. emits (checkExists c' i) (\<lambda>_. delete_guarded)"
    and del: "emits (deleteFunc i) (\<lambda>r ev. ev = [del r])"
    and ok: "\<And>prev r. delete_ok prev (del r) = owner_check c rt i prev"
  shows "emits (deleteResource E c rt i checkExists deleteFunc) (\<lambda>_. delete_guarded)"
proof -
  have "emits (deleteFunc i \<bind> g) (\<lambda>r ev. guarded_from prev ev)"
    if "owner_check c rt i prev" and "\<And>err. \<exists>r. g err = ret r" for prev g
  proof (rule emits_bind_weaken [OF del])
    fix r ev assume "ev = [del r]"
    with that(1) that(2) [of r] show "emits (g r) (\<lambda>r e2. guarded_from prev (ev @ e2))"
      by (auto intro!: emits_return simp: ok)
  qed
  note tail = this
  show ?thesis
    unfolding deleteResource_def
    by (intro guarded.safe_bind [OF assms(1)] guarded.safe_case_sum guarded.safe_if
        guarded.safe_return tag_check_emits tail)
      (auto split: option.split)
qed

lemma DeletePort_guarded: "emits (DeletePort E c i) (\<lambda>_. delete_guarded)"
  unfolding DeletePort_def
  by (rule deleteResource_guarded [where del = "EPortDelete c i"])
    (auto intro: guarded.safe_checkPortExists emits_call simp: PortDelete_def)

lemma DeleteFloatingIP_guarded: "emits (DeleteFloatingIP E c i) (\<lambda>_. delete_guarded)"
  unfolding DeleteFloatingIP_def
  by (rule deleteResource_guarded [where del = "EFipDelete c i"])
    (auto intro: guarded.safe_checkFloatingIPExists emits_call simp: FipDelete_def)

lemma CreatePort_guarded: "emits (CreatePort E c net sub pname ip descr ns name) (\<lambda>_. delete_guarded)"
  unfolding CreatePort_def Let_def PortCreate_def TagsReplaceAll_def
  by (intro guarded.safe_intros guarded.safe_call) (simp_all add: delete_guarded_def)

lemma CreateFloatingIP_guarded:
  "emits (CreateFloatingIP_impl E c net i descr ns name) (\<lambda>_. delete_guarded)"
  unfolding CreateFloatingIP_impl_def Let_def FipCreate_def TagsReplaceAll_def
  by (intro guarded.safe_intros guarded.safe_call) (simp_all add: delete_guarded_def)

interpretation guarded_impl: audited_client delete_guarded "ClientImpl E c" for E c
  by (rule guarded.ClientImpl_audited)
    (rule CreatePort_guarded CreateFloatingIP_guarded DeletePort_guarded DeleteFloatingIP_guarded)+

section \<open>Created resources are tagged\<close>

text \<open>
  Every resource that was created is tagged by the very next call, with the tag map the operator
  builds for some service (whether or not that call succeeds).
\<close>

definition operator_tags :: "env \<Rightarrow> string \<Rightarrow> string list \<Rightarrow> bool" where
  "operator_tags E rt tags \<longleftrightarrow> (\<exists>ns name. tags = convertMapToTags E (resource_tags E rt ns name))"

lemma operator_tagsI [simp]: "operator_tags E rt (convertMapToTags E (resource_tags E rt ns name))"
  by (auto simp: operator_tags_def)

fun tags_follow :: "env \<Rightarrow> ServiceClient \<Rightarrow> string \<Rightarrow> string \<Rightarrow> event list \<Rightarrow> bool" where
  "tags_follow E c rt i (ETagsReplace c' rt' i' tags r # es) =
     (c' = c \<and> rt' = rt \<and> i' = i \<and> operator_tags E rt tags)"
| "tags_follow E c rt i _ = False"

fun create_tagged :: "env \<Rightarrow> event list \<Rightarrow> bool" where
  "create_tagged E [] = True"
| "create_tagged E (EPortCreate c opts (Inr p) # es) =
     (tags_follow E c ResourceTypePort (Port_ID p) es \<and> create_tagged E es)"
| "create_tagged E (EFipCreate c opts (Inr f) # es) =
     (tags_follow E c ResourceTypeFloatingIP (FIP_ID f) es \<and> create_tagged E es)"
| "create_tagged E (e # es) = create_tagged E es"

lemma tags_follow_append: "tags_follow E c rt i xs \<Longrightarrow> tags_follow E c rt i (xs @ ys)"
  by (induction E c rt i xs rule: tags_follow.induct) auto

lemma create_tagged_append: "create_tagged E xs \<Longrightarrow> create_tagged E ys \<Longrightarrow> create_tagged E (xs @ ys)"
  by (induction E xs rule: create_tagged.induct) (auto intro: tags_follow_append)

interpretation tagged: audited "create_tagged E" for E
proof unfold_locales
  fix e assume "neutral e"
  then show "create_tagged E [e]" by (cases e) simp_all
qed (simp_all add: create_tagged_append)

lemma deleteResource_tagged:
  assumes "\<And>c' i. emits (checkExists c' i) (\<lambda>_. create_tagged E)"
    and "emits (deleteFunc i) (\<lambda>_. create_tagged E)"
  shows "emits (deleteResource E c rt i checkExists deleteFunc) (\<lambda>_. create_tagged E)"
  unfolding deleteResource_def by (intro tagged.safe_intros tagged.safe_calls assms)

lemma DeletePort_tagged: "emits (DeletePort E c i) (\<lambda>_. create_tagged E)"
  unfolding DeletePort_def PortDelete_def
  by (rule deleteResource_tagged) (auto intro: tagged.safe_checkPortExists tagged.safe_call)

lemma DeleteFloatingIP_tagged: "emits (DeleteFloatingIP E c i) (\<lambda>_. create_tagged E)"
  unfolding DeleteFloatingIP_def FipDelete_def
  by (rule deleteResource_tagged) (auto intro: tagged.safe_checkFloatingIPExists tagged.safe_call)

lemma CreatePort_tagged:
  "emits (CreatePort E c net sub pname ip descr ns name) (\<lambda>_. create_tagged E)"
  unfolding CreatePort_def Let_def PortCreate_def TagsReplaceAll_def
  by (rule emits_bind, rule emits_call)
    (auto intro!: emits_return emits_bind emits_call
      simp: ResourceTypePort_def split: sum.split)

lemma CreateFloatingIP_tagged:
  "emits (CreateFloatingIP_impl E c net i descr ns name) (\<lambda>_. create_tagged E)"
  unfolding CreateFloatingIP_impl_def Let_def FipCreate_def TagsReplaceAll_def
  by (rule emits_bind, rule emits_call)
    (auto intro!: emits_return emits_bind emits_call
      simp: ResourceTypeFloatingIP_def split: sum.split)

interpretation tagged_impl: audited_client "create_tagged E" "ClientImpl E c" for E c
  by (rule tagged.ClientImpl_audited)
    (rule CreatePort_tagged CreateFloatingIP_tagged DeletePort_tagged DeleteFloatingIP_tagged)+

section \<open>Every client is a ClientImpl\<close>

definition is_impl :: "env \<Rightarrow> error + Client \<Rightarrow> bool" where
  "is_impl E r \<longleftrightarrow> (\<forall>cl. r = Inr cl \<longrightarrow> (\<exists>c. cl = ClientImpl E c))"

lemma is_impl_simps [simp]: "is_impl E (Inl e)" "is_impl E (Inr (ClientImpl E c))"
  by (auto simp: is_impl_def)

lemma NewClient_returns: "returns (NewClient E sn sns) (is_impl E)"
  unfolding NewClient_def Let_def by (intro returns_intros is_impl_simps)

text \<open>The controller meets clients made by \<open>NewClient\<close>: the contract for all of them at once.\<close>

locale audited_impl = audited P for P :: "event list \<Rightarrow> bool" +
  fixes E :: env
  assumes impl_audited: "audited_client P (ClientImpl E c)"
begin

lemma safe_impl_bind:
  assumes "emits m (\<lambda>_. P)" and "returns m (is_impl E)"
    and "\<And>e. emits (f (Inl e)) (\<lambda>_. P)"
    and "\<And>c. emits (f (Inr (ClientImpl E c))) (\<lambda>_. P)"
  shows "emits (m \<bind> f) (\<lambda>_. P)"
proof (rule emits_bind_weaken [OF emits_returns [OF assms(1,2)]])
  fix r ev assume "P ev \<and> is_impl E r"
  then show "emits (f r) (\<lambda>b e2. P (ev @ e2))"
    using assms(3,4) by (cases r) (auto simp: is_impl_def intro!: safe_after)
qed

end

interpretation guarded_env: audited_impl delete_guarded E for E
  by unfold_locales

interpretation tagged_env: audited_impl "create_tagged E" E for E
  by unfold_locales

section \<open>Tags\<close>

text \<open>
  C19: the tags written on a resource created for a service mark it as owned by the operator, and
  identify that service and no other.
\<close>

theorem created_tags_identify_service:
  assumes "range_spec (sys E)"
  shows "isResourceOwnedByOperator (convertMapToTags E (resource_tags E rt ns name))
    \<and> (isResourceForService (convertMapToTags E (resource_tags E rt ns name)) ns' name'
        \<longleftrightarrow> ns' = ns \<and> name' = name)"
  by (auto simp: isResourceOwnedByOperator_iff isResourceForService_iff set_convertMapToTags [OF assms]
    resource_tags_def tag_const_defs Let_def split: if_splits)

theorem created_tags_identify_service_witness:
  "isResourceOwnedByOperator (convertMapToTags sample_env (resource_tags sample_env ''ports'' ''default'' ''web''))
    \<and> (isResourceForService (convertMapToTags sample_env (resource_tags sample_env ''ports'' ''default'' ''web''))
         ''default'' ''web2'' \<longleftrightarrow> ''default'' = ''default'' \<and> ''web2'' = ''web'')"
  by (rule created_tags_identify_service) simp

section \<open>Searching by tags\<close>

lemma getManagedResources_loop_run:
  "\<exists>answers. length answers = length rs
     \<and> run_state (getManagedResources_loop E c rt ns name getID acc rs) h
       = (acc @ map fst (filter (\<lambda>(r, t). case t of Inl _ \<Rightarrow> False
            | Inr ts \<Rightarrow> isResourceOwnedByOperator ts \<and> isResourceForService ts ns name) (zip rs answers)),
          h @ map2 (\<lambda>r t. ETagsList c rt (getID r) t) rs answers)"
proof (induction rs arbitrary: acc h)
  case Nil
  show ?case by simp
next
  case (Cons r rs)
  define t where "t = tags_List (gopher E) h c rt (getID r)"
  define acc' where "acc' = (case t of Inl _ \<Rightarrow> acc | Inr ts \<Rightarrow> if isResourceOwnedByOperator ts \<and> isResourceForService ts ns name
                    then acc @ [r] else acc)"
  from Cons.IH [of acc' "h @ [ETagsList c rt (getID r) t]"] obtain answers where
    "length answers = length rs"
    and "run_state (getManagedResources_loop E c rt ns name getID acc' rs) (h @ [ETagsList c rt (getID r) t])
       = (acc' @ map fst (filter (\<lambda>(r, t). case t of Inl _ \<Rightarrow> False
            | Inr ts \<Rightarrow> isResourceOwnedByOperator ts \<and> isResourceForService ts ns name) (zip rs answers)),
          (h @ [ETagsList c rt (getID r) t]) @ map2 (\<lambda>r t. ETagsList c rt (getID r) t) rs answers)"
    by blast
  then show ?case
    by (intro exI [of _ "t # answers"]) (simp add: TagsList_def t_def [symmetric] acc'_def split: sum.split)
qed

text \<open>
  C20: \<open>GetManagedPorts\<close> lists the ports once, reads the tags of each one once, in order, and returns,
  in order, exactly the ports whose tags could be read and mark them as owned by the operator and as
  belonging to the service.
\<close>

theorem GetManagedPorts_spec:
  assumes "run_state (GetManagedPorts E c ns name) h = (Inr managed, h')"
  shows "\<exists>pages ports answers. port_Extract (gopher E) pages = Inr ports \<and> length answers = length ports
    \<and> h' = h @ EPortList c (Inr pages) # map2 (\<lambda>p t. ETagsList c ''ports'' (Port_ID p) t) ports answers
    \<and> managed = map fst (filter (\<lambda>(p, t). case t of Inl _ \<Rightarrow> False
            | Inr ts \<Rightarrow> isResourceOwnedByOperator ts \<and> isResourceForService ts ns name) (zip ports answers))"
proof -
  from assms obtain pages ports where pp: "port_List (gopher E) h c = Inr pages" "port_Extract (gopher E) pages = Inr ports"
    by (auto simp: GetManagedPorts_def getManagedResources_def PortList_def split: sum.splits)
  from getManagedResources_loop_run [of ports E c "''ports''" ns name Port_ID "[]" "h @ [EPortList c (Inr pages)]"]
  show ?thesis using assms pp
    by (fastforce simp: GetManagedPorts_def getManagedResources_def PortList_def ResourceTypePort_def)
qed

theorem GetManagedPorts_spec_witness:
  "\<exists>pages ports answers. port_Extract (gopher sample_env) pages = Inr ports \<and> length answers = length ports
    \<and> [EPortList sample_net (Inr (Page ''ports'')),
       ETagsList sample_net ''ports'' ''p1'' (Inr [''managed-by=openstack-lb-operator''])]
      = [] @ EPortList sample_net (Inr pages)
          # map2 (\<lambda>p t. ETagsList sample_net ''ports'' (Port_ID p) t) ports answers
    \<and> [] = map fst (filter (\<lambda>(p, t). case t of Inl _ \<Rightarrow> False
            | Inr ts \<Rightarrow> isResourceOwnedByOperator ts \<and> isResourceForService ts ''default'' ''web'')
            (zip ports answers))"
  by (rule GetManagedPorts_spec)
    (simp add: GetManagedPorts_def getManagedResources_def call_defs isResourceForService_iff
      tag_const_defs sample_gopher_def sample_port_def)

section \<open>What a deletion reports\<close>

text \<open>The answers of OpenStack that say that a resource does not exist (any more).\<close>

fun port_gone :: "ServiceClient \<Rightarrow> string \<Rightarrow> event \<Rightarrow> bool" where
  "port_gone c i (EPortGet c' i' (Inl e)) = (c' = c \<and> i' = i \<and> IsNotFoundError e)"
| "port_gone c i (EPortDelete c' i' None) = (c' = c \<and> i' = i)"
| "port_gone c i (EPortDelete c' i' (Some e)) = (c' = c \<and> i' = i \<and> IsNotFoundError e)"
| "port_gone c i _ = False"

fun fip_gone :: "ServiceClient \<Rightarrow> string \<Rightarrow> event \<Rightarrow> bool" where
  "fip_gone c i (EFipGet c' i' (Inl e)) = (c' = c \<and> i' = i \<and> IsNotFoundError e)"
| "fip_gone c i (EFipDelete c' i' None) = (c' = c \<and> i' = i)"
| "fip_gone c i (EFipDelete c' i' (Some e)) = (c' = c \<and> i' = i \<and> IsNotFoundError e)"
| "fip_gone c i _ = False"

lemma DeletePort_emits:
  "emits (DeletePort E c i) (\<lambda>err ev. ev \<noteq> [] \<and> (err = None \<longleftrightarrow> port_gone c i (last ev)))"
  unfolding DeletePort_def deleteResource_def checkPortExists_def PortGet_def TagsList_def PortDelete_def
  by (auto intro!: emits_bind emits_call emits_return split: sum.split option.split)

lemma DeleteFloatingIP_emits:
  "emits (DeleteFloatingIP E c i) (\<lambda>err ev. ev \<noteq> [] \<and> (err = None \<longleftrightarrow> fip_gone c i (last ev)))"
  unfolding DeleteFloatingIP_def deleteResource_def checkFloatingIPExists_def FipGet_def TagsList_def FipDelete_def
  by (auto intro!: emits_bind emits_call emits_return split: sum.split option.split)

text \<open>
  C21: a deletion returns nil exactly when the last answer of OpenStack to it said that the resource is
  gone: not found when looked up, deleted, or not found when deleted. In every other case, a refusal
  for a missing ownership tag included, it returns an error.
\<close>

theorem delete_reports_absence:
  "(case run_state (DeletePort E c i) h of (err, h') \<Rightarrow> err = None \<longleftrightarrow> port_gone c i (last h'))
   \<and> (case run_state (DeleteFloatingIP E c i) h of (err, h') \<Rightarrow> err = None \<longleftrightarrow> fip_gone c i (last h'))"
proof
  show "case run_state (DeletePort E c i) h of (err, h') \<Rightarrow> err = None \<longleftrightarrow> port_gone c i (last h')"
    using DeletePort_emits [of E c i] by (auto simp: emits_def split_beta dest!: spec [of _ h])
  show "case run_state (DeleteFloatingIP E c i) h of (err, h') \<Rightarrow> err = None \<longleftrightarrow> fip_gone c i (last h')"
    using DeleteFloatingIP_emits [of E c i] by (auto simp: emits_def split_beta dest!: spec [of _ h])
qed

section \<open>Detecting the network\<close>

definition subnet_covers :: "IP \<Rightarrow> Subnet \<Rightarrow> bool" where
  "subnet_covers ip sn = (case ParseCIDR (Subnet_CIDR sn) of None \<Rightarrow> False | Some n \<Rightarrow> IPNet_Contains n ip)"

lemma DetectNetworkForIP_loop_find:
  "DetectNetworkForIP_loop ip sns = map_option (\<lambda>sn. (Subnet_NetworkID sn, Subnet_ID sn)) (List.find (subnet_covers ip) sns)"
  by (induction sns) (auto simp: subnet_covers_def split: option.split)

text \<open>
  C23: \<open>DetectNetworkForIP\<close> succeeds exactly when the address parses, the subnets can be listed and
  one of them covers the address; it then returns the network and the subnet of the first such one,
  after the one call that lists the subnets.
\<close>

theorem DetectNetworkForIP_first_match:
  "run_state (DetectNetworkForIP E c addr) h = (Inr (net, sub), h') \<longleftrightarrow>
     (\<exists>ip pages pre sn post. ParseIP addr = Some ip
        \<and> subnet_List (gopher E) h c = Inr pages \<and> h' = h @ [ESubnetList c (Inr pages)]
        \<and> subnet_Extract (gopher E) pages = Inr (pre @ sn # post)
        \<and> subnet_covers ip sn \<and> (\<forall>s \<in> set pre. \<not> subnet_covers ip s)
        \<and> net = Subnet_NetworkID sn \<and> sub = Subnet_ID sn)"
  (is "?lhs \<longleftrightarrow> ?rhs")
proof
  assume ?lhs
  then obtain ip pages sns sn where "ParseIP addr = Some ip" "subnet_List (gopher E) h c = Inr pages"
    "subnet_Extract (gopher E) pages = Inr sns" "List.find (subnet_covers ip) sns = Some sn"
    "h' = h @ [ESubnetList c (Inr pages)]" "net = Subnet_NetworkID sn" "sub = Subnet_ID sn"
    by (auto simp: DetectNetworkForIP_def DetectNetworkForIP_loop_find SubnetList_def
        split: option.splits sum.splits)
  then show ?rhs by (auto simp: find_Some_split)
next
  assume ?rhs
  then show ?lhs
    by (auto simp: DetectNetworkForIP_def DetectNetworkForIP_loop_find SubnetList_def find_append_first)
qed

lemmas parse_defs = ParseAddr_def parseIPv4_def is_digit_def digit_val_def bytes_of_def

lemma v4InV6Prefix_eq: "v4InV6Prefix = [0, 0, 0, 0, 0, 0, 0, 0, 0, 0, 255, 255]"
  by (simp add: v4InV6Prefix_def eval_nat_numeral)

lemma sample_ParseIP: "ParseIP ''10.0.0.5'' = Some [0, 0, 0, 0, 0, 0, 0, 0, 0, 0, 255, 255, 10, 0, 0, 5]"
  by (simp add: ParseIP_def parse_defs As16_def v4InV6Prefix_eq)

lemma sample_ParseCIDR:
  "ParseCIDR ''10.0.0.0/24'' = Some \<lparr>netIP = [10, 0, 0, 0], netMask = [255, 255, 255, 0]\<rparr>"
  by (simp add: ParseCIDR_def cut_slash_def parse_defs mask_byte_def As16_def v4InV6Prefix_eq
      IP_Mask_def and_bytes_def Let_def)

lemma sample_subnet_covers:
  "subnet_covers [0, 0, 0, 0, 0, 0, 0, 0, 0, 0, 255, 255, 10, 0, 0, 5] sample_subnet"
  by (simp add: subnet_covers_def sample_subnet_def sample_ParseCIDR IPNet_Contains_def
      networkNumberAndMask_def To4_def v4InV6Prefix_eq and_bytes_def)

theorem DetectNetworkForIP_first_match_witness:
  "run_state (DetectNetworkForIP sample_env sample_net ''10.0.0.5'') []
     = (Inr (''n1'', ''s1''), [ESubnetList sample_net (Inr (Page ''subnets''))])"
  unfolding DetectNetworkForIP_first_match
  by (rule exI [of _ "[0, 0, 0, 0, 0, 0, 0, 0, 0, 0, 255, 255, 10, 0, 0, 5]"],
      rule exI [of _ "Page ''subnets''"], rule exI [of _ "[]"], rule exI [of _ sample_subnet])
    (simp add: sample_subnet_covers sample_ParseIP sample_gopher_def, simp add: sample_subnet_def)

text \<open>The specification of covering by bits, for IPv4.\<close>

definition bits_covered :: "IP \<Rightarrow> Subnet \<Rightarrow> bool" where
  "bits_covered ip sn =
     (case (cidr4 (Subnet_CIDR sn), To4 ip) of
        (Some (a, n), Some x) \<Rightarrow> take n (ip_bits x) = take n (ip_bits a)
      | _ \<Rightarrow> False)"

lemma subnet_covers_bits:
  assumes "cidr4 (Subnet_CIDR sn) \<noteq> None"
  shows "subnet_covers ip sn = bits_covered ip sn"
proof -
  from assms obtain a n where an: "cidr4 (Subnet_CIDR sn) = Some (a, n)" by fastforce
  from cidr4_Contains [OF this] obtain net where net: "ParseCIDR (Subnet_CIDR sn) = Some net"
    and ct: "IPNet_Contains net ip \<longleftrightarrow> (\<exists>x. To4 ip = Some x \<and> take n (ip_bits x) = take n (ip_bits a))"
    by blast
  show ?thesis
    by (cases "To4 ip") (simp_all add: subnet_covers_def bits_covered_def an net ct)
qed

text \<open>
  C24: when the address parses and all subnets are IPv4 subnets in CIDR notation, \<open>DetectNetworkForIP\<close>
  returns the network and subnet of the first subnet whose leading bits, as many as its prefix length
  says, agree with those of the address, and an error if there is none.
\<close>

theorem DetectNetworkForIP_leading_bits:
  assumes "ParseIP addr = Some ip" and "subnet_List (gopher E) h c = Inr pages"
    and "subnet_Extract (gopher E) pages = Inr sns"
    and "list_all (\<lambda>sn. cidr4 (Subnet_CIDR sn) \<noteq> None) sns"
  shows "fst (run_state (DetectNetworkForIP E c addr) h) =
    (case List.find (bits_covered ip) sns of
       Some sn \<Rightarrow> Inr (Subnet_NetworkID sn, Subnet_ID sn)
     | None \<Rightarrow> Inl (Errorf (''no subnet found containing IP '' @ addr)))"
proof -
  have "List.find (subnet_covers ip) sns = List.find (bits_covered ip) sns"
    using assms(4) by (induction sns) (auto simp: subnet_covers_bits)
  with assms(1-3) show ?thesis
    by (simp add: DetectNetworkForIP_def DetectNetworkForIP_loop_find SubnetList_def split: option.split)
qed

lemma sample_cidr4: "cidr4 ''10.0.0.0/24'' = Some ([10, 0, 0, 0], 24)"
  by (simp add: cidr4_def cut_slash_def parse_defs)

theorem DetectNetworkForIP_leading_bits_witness:
  "fst (run_state (DetectNetworkForIP sample_env sample_net ''10.0.0.5'') []) =
    (case List.find (bits_covered [0, 0, 0, 0, 0, 0, 0, 0, 0, 0, 255, 255, 10, 0, 0, 5]) [sample_subnet] of
       Some sn \<Rightarrow> Inr (Subnet_NetworkID sn, Subnet_ID sn)
     | None \<Rightarrow> Inl (Errorf (''no subnet found containing IP '' @ ''10.0.0.5'')))"
  by (rule DetectNetworkForIP_leading_bits [OF sample_ParseIP])
    (simp_all add: sample_gopher_def sample_cidr4 sample_subnet_def)

section \<open>Connecting\<close>

definition credentials_complete :: "Secret \<Rightarrow> bool" where
  "credentials_complete sec \<longleftrightarrow> gmap_index (Data sec) ''OS_AUTH_URL'' \<noteq> []
     \<and> gmap_index (Data sec) ''OS_APPLICATION_CREDENTIAL_ID'' \<noteq> [] \<and> gmap_index (Data sec) ''OS_APPLICATION_CREDENTIAL_SECRET'' \<noteq> []"

lemma NewClient_incomplete:
  assumes "\<And>sec. k8s_GetSecret (k8s E) h \<lparr>nnName = sn, nnNamespace = sns\<rparr> = Inr sec \<Longrightarrow> \<not> credentials_complete sec"
  shows "\<exists>e s. run_state (NewClient E sn sns) h = (Inl e, h @ [EGetSecret \<lparr>nnName = sn, nnNamespace = sns\<rparr> s])"
  using assms by (auto simp: NewClient_def GetSecret_def credentials_complete_def Let_def split: sum.splits if_splits)

definition connected :: "env \<Rightarrow> NamespacedName \<Rightarrow> Client \<Rightarrow> event list \<Rightarrow> bool" where
  "connected E k cl ev \<longleftrightarrow> (\<exists>sec ev' pc nc. 
      ev = EGetSecret k (Inr sec) # ev' @ [EAuthenticate pc \<lparr>IdentityEndpoint = gmap_index (Data sec) ''OS_AUTH_URL'', 
         ApplicationCredentialID = gmap_index (Data sec) ''OS_APPLICATION_CREDENTIAL_ID'',
         ApplicationCredentialSecret = gmap_index (Data sec) ''OS_APPLICATION_CREDENTIAL_SECRET''\<rparr> None, 
         ENewNetworkV2 pc (gmap_index (Data sec) ''OS_REGION_NAME'') (Inr nc)]
      \<and> credentials_complete sec \<and> cl = ClientImpl E nc)"

text \<open>Every computation of the operator only extends the history.\<close>

interpretation any_trace: audited "\<lambda>_. True"
  by unfold_locales auto

lemma emits_any: "emits m Q \<Longrightarrow> emits m (\<lambda>_ _. True)"
  by (erule emits_weaken) simp

interpretation any_impl: audited_client "\<lambda>_. True" "ClientImpl E c" for E c
  by (rule any_trace.ClientImpl_audited)
    (rule emits_any [OF CreatePort_guarded] emits_any [OF CreateFloatingIP_guarded]
      emits_any [OF DeletePort_guarded] emits_any [OF DeleteFloatingIP_guarded])+

interpretation any_env: audited_impl "\<lambda>_. True" E for E
  by unfold_locales

lemma NewClient_run_connected:
  assumes "run_state (NewClient E sn sns) h = (Inr cl, h')"
  shows "\<exists>ev. h' = h @ ev \<and> connected E \<lparr>nnName = sn, nnNamespace = sns\<rparr> cl ev"
proof -
  let ?k = "\<lparr>nnName = sn, nnNamespace = sns\<rparr>"
  from assms obtain sec where sec: "k8s_GetSecret (k8s E) h ?k = Inr sec" and cc: "credentials_complete sec"
    using NewClient_incomplete [of E h sn sns] by (metis Inl_Inr_False fst_conv)
  let ?h = "h @ [EGetSecret ?k (Inr sec)]"
  obtain tr ev' where tr: "run_state (createHTTPTransport E) ?h = (tr, ?h @ ev')"
    using emitsD [OF any_trace.safe_createHTTPTransport] by (metis surj_pair)
  from assms cc show ?thesis
    by (auto simp: NewClient_def call_defs sec tr credentials_complete_def connected_def Let_def
        split: sum.splits option.splits)
qed

lemma NewClient_emits:
  "emits (NewClient E sn sns) (\<lambda>r ev. \<forall>cl. r = Inr cl \<longrightarrow> connected E \<lparr>nnName = sn, nnNamespace = sns\<rparr> cl ev)"
proof (rule emitsI)
  fix h
  obtain r h' where r: "run_state (NewClient E sn sns) h = (r, h')" by (metis prod.collapse)
  obtain ev where ev: "h' = h @ ev" using emitsD [OF any_trace.safe_NewClient r] by blast
  have "connected E \<lparr>nnName = sn, nnNamespace = sns\<rparr> cl ev" if "r = Inr cl" for cl
    using NewClient_run_connected [of E sn sns h cl h'] r ev that by auto
  with r ev show "\<exists>ev. snd (run_state (NewClient E sn sns) h) = h @ ev \<and>
       (\<forall>cl. fst (run_state (NewClient E sn sns) h) = Inr cl \<longrightarrow> connected E \<lparr>nnName = sn, nnNamespace = sns\<rparr> cl ev)"
    by auto
qed

text \<open>
  C25: \<open>NewClient\<close> only returns a client after the secret was read and found to hold a URL, an
  application credential ID and its secret, authentication with exactly those succeeded, and the
  network endpoint of the secret's region was found; the client uses that endpoint.
\<close>

theorem NewClient_connected:
  assumes "run_state (NewClient E sn sns) h = (Inr cl, h')"
  shows "\<exists>ev. h' = h @ ev \<and> connected E \<lparr>nnName = sn, nnNamespace = sns\<rparr> cl ev"
  using emitsD [OF NewClient_emits assms] by auto

lemma NewClient_sample:
  assumes "gopher E = sample_gopher" and "sys E = sample_sys"
    and "\<And>h k. k8s_GetSecret (k8s E) h k = Inr sample_secret"
  shows "\<exists>ev. run_state (NewClient E a b) h = (Inr (ClientImpl E sample_net), h @ ev)"
  by (simp add: assms NewClient_def createHTTPTransport_def call_defs gmap_index_def gmap_lookup_def
      Let_def sample_net_def sample_defs)

theorem NewClient_connected_witness:
  "\<exists>h' ev. run_state (NewClient sample_env ''creds'' ''default'') [] = (Inr (ClientImpl sample_env sample_net), h')
    \<and> h' = [] @ ev
    \<and> connected sample_env \<lparr>nnName = ''creds'', nnNamespace = ''default''\<rparr> (ClientImpl sample_env sample_net) ev"
proof -
  obtain h' where "run_state (NewClient sample_env ''creds'' ''default'') [] = (Inr (ClientImpl sample_env sample_net), h')"
    using NewClient_sample [of sample_env "''creds''" "''default''" "[]"] by (auto simp: sample_k8s_def)
  with NewClient_connected [OF this] show ?thesis by blast
qed

section \<open>Certificates\<close>

text \<open>
  The files of a directory tree that hold certificates, by their names; what reading a list of files
  leaves in the trace, and the bundles among the answers that could be parsed.
\<close>

definition bundle_file :: "WalkEntry \<Rightarrow> bool" where
  "bundle_file d \<longleftrightarrow> \<not> we_IsDir d
     \<and> (let name = map char_ToLower (we_Name d) in
         name \<in> {''ca-certificates'', ''ca-bundle''} \<or> (\<exists>ext \<in> {''.crt'', ''.pem'', ''.cert''}. suffix ext name))"

definition file_reads :: "(string \<times> (error + string)) list \<Rightarrow> event list" where
  "file_reads reads = map (\<lambda>(p, r). EReadFile p r) reads"

definition parsed_bundles :: "env \<Rightarrow> (string \<times> (error + string)) list \<Rightarrow> string list" where
  "parsed_bundles E reads =
     concat (map (\<lambda>(p, r). case r of Inl _ \<Rightarrow> [] | Inr b \<Rightarrow> if pem_ok (sys E) b then [b] else []) reads)"

lemma file_reads_simps [simp]:
  "file_reads [] = []" "file_reads ((p, r) # reads) = EReadFile p r # file_reads reads"
  "parsed_bundles E [] = []"
  "parsed_bundles E ((p, Inl e) # reads) = parsed_bundles E reads"
  "parsed_bundles E ((p, Inr b) # reads) = (if pem_ok (sys E) b then b # parsed_bundles E reads else parsed_bundles E reads)"
  by (simp_all add: file_reads_def parsed_bundles_def)

lemma bundle_file_isCertName: "bundle_file d \<longleftrightarrow> \<not> we_IsDir d \<and> isCertName (we_Name d)"
  by (auto simp: bundle_file_def isCertName_def strings_ToLower_def strings_HasSuffix_def Let_def)

definition walk_post :: "env \<Rightarrow> WalkEntry list \<Rightarrow> CertPool \<Rightarrow> error + CertPool \<times> nat \<Rightarrow> event list \<Rightarrow> bool" where
  "walk_post E ds roots r ev \<longleftrightarrow>
     (\<forall>roots' n. r = Inr (roots', n) \<longrightarrow> list_all (\<lambda>d. we_err d = None) ds
        \<and> (\<exists>reads. ev = file_reads reads \<and> map fst reads = map we_path (filter bundle_file ds)
             \<and> roots' = roots @ parsed_bundles E reads))"

lemma walk_post_read:
  assumes "bundle_file d" and "we_err d = None"
    and "walk_post E ds (case a of Inl _ \<Rightarrow> roots | Inr b \<Rightarrow> if pem_ok (sys E) b then roots @ [b] else roots) r ev"
  shows "walk_post E (d # ds) roots r (EReadFile (we_path d) a # ev)"
  unfolding walk_post_def
proof (intro allI impI conjI)
  fix roots' n assume "r = Inr (roots', n)"
  with assms(3) obtain reads where all: "list_all (\<lambda>d. we_err d = None) ds" and ev: "ev = file_reads reads"
    and p: "map fst reads = map we_path (filter bundle_file ds)"
    and roots: "roots' = (case a of Inl _ \<Rightarrow> roots | Inr b \<Rightarrow> if pem_ok (sys E) b then roots @ [b] else roots) @ parsed_bundles E reads"
    by (auto simp: walk_post_def)
  from all assms(2) show "list_all (\<lambda>d. we_err d = None) (d # ds)" by simp
  show "\<exists>reads. EReadFile (we_path d) a # ev = file_reads reads
      \<and> map fst reads = map we_path (filter bundle_file (d # ds)) \<and> roots' = roots @ parsed_bundles E reads"
    by (rule exI [of _ "(we_path d, a) # reads"]) (cases a; simp add: ev p roots assms(1))
qed

lemma walkCerts_emits: "emits (walkCerts E ds (roots, n)) (walk_post E ds roots)"
proof (induction ds arbitrary: roots n)
  case Nil
  show ?case by (auto simp: walk_post_def intro!: emits_return exI [of _ "[]"])
next
  case (Cons d ds)
  show ?case
  proof (cases "we_err d = None")
    case False
    then show ?thesis by (auto simp: walk_post_def intro: emits_return)
  next
    case ok: True
    have skip: "walk_post E ds roots r ev \<Longrightarrow> \<not> bundle_file d \<Longrightarrow> walk_post E (d # ds) roots r ev" for r ev
      by (auto simp: walk_post_def ok)
    have r: "emits (ReadFile E p) (\<lambda>r ev. ev = [EReadFile p r])" for p
      by (simp add: ReadFile_def emits_call)
    have read: "emits (ReadFile E (we_path d) \<bind> (\<lambda>certs. case certs of Inl _ \<Rightarrow> walkCerts E ds (roots, n)
              | Inr bytes \<Rightarrow> walkCerts E ds (appendCerts E bytes (roots, n)))) (walk_post E (d # ds) roots)"
      if b: "bundle_file d"
    proof (rule emits_bind_weaken [OF r])
      fix a ev assume ev: "ev = [EReadFile (we_path d) a]"
      have "emits (case a of Inl _ \<Rightarrow> walkCerts E ds (roots, n) | Inr bytes \<Rightarrow> walkCerts E ds (appendCerts E bytes (roots, n)))
         (walk_post E ds (case a of Inl _ \<Rightarrow> roots | Inr b \<Rightarrow> if pem_ok (sys E) b then roots @ [b] else roots))"
        by (cases a) (simp_all add: appendCerts_def Cons.IH)
      then show "emits (case a of Inl _ \<Rightarrow> walkCerts E ds (roots, n) | Inr bytes \<Rightarrow> walkCerts E ds (appendCerts E bytes (roots, n)))
         (\<lambda>r e2. walk_post E (d # ds) roots r (ev @ e2))"
        by (rule emits_weaken) (simp add: ev walk_post_read [OF b ok])
    qed
    show ?thesis
    proof (cases "bundle_file d")
      case True
      with read ok show ?thesis by (simp add: bundle_file_isCertName)
    next
      case False
      have "emits (walkCerts E ds (roots, n)) (walk_post E (d # ds) roots)"
        by (rule emits_weaken [OF Cons.IH]) (rule skip [OF _ False])
      with False ok show ?thesis by (auto simp: bundle_file_isCertName)
    qed
  qed
qed

text \<open>
  C27: without a configured path there is no custom transport and no call is made. With one, exactly
  these files are read, in order: the path itself, if it is a file, and every certificate file the walk
  over the tree visits, if it is a directory, where the walk met no error. The trusted roots are those
  of the system pool (none, if it cannot be loaded) followed by every bundle that could be read and
  parsed, and nothing else.
\<close>

theorem createHTTPTransport_pool:
  assumes "run_state (createHTTPTransport E) h = (Inr tr, h')"
    and "path = os_Getenv (sys E) ''OPENSTACK_CA_CERT_PATH''" and "pool = os_SystemCertPool (sys E) h"
  shows "case tr of None \<Rightarrow> path = [] \<and> h' = h
    | Some t \<Rightarrow> path \<noteq> [] \<and> (\<exists>isDir reads.
        h' = h @ [ESystemCertPool pool, EStat path (Inr isDir)] @ file_reads reads
        \<and> (if isDir
            then (\<exists>ds. ds = os_WalkDir (sys E) (h @ [ESystemCertPool pool, EStat path (Inr True)]) path
                   \<and> list_all (\<lambda>d. we_err d = None) ds \<and> map fst reads = map we_path (filter bundle_file ds))
            else (\<exists>b. reads = [(path, Inr b)]))
        \<and> RootCAs t = (case pool of Inl _ \<Rightarrow> [] | Inr p \<Rightarrow> p) @ parsed_bundles E reads)"
proof (cases "path = []")
  case True
  with assms show ?thesis by (auto simp: createHTTPTransport_def)
next
  case False
  let ?roots = "case pool of Inl _ \<Rightarrow> [] | Inr p \<Rightarrow> p"
  let ?h = "h @ [ESystemCertPool pool, EStat path (Inr True)]"
  let ?ds = "os_WalkDir (sys E) ?h path"
  obtain isDir where d: "os_Stat (sys E) (h @ [ESystemCertPool pool]) path = Inr isDir"
    using assms False by (auto simp: createHTTPTransport_def call_defs Let_def split: sum.splits)
  show ?thesis
  proof (cases isDir)
    case True
    obtain r ev where w: "run_state (walkCerts E ?ds (?roots, 0)) ?h = (r, ?h @ ev)" and p: "walk_post E ?ds ?roots r ev"
      using emitsD [OF walkCerts_emits] by (metis surj_pair)
    from assms False d True w obtain roots n where r: "r = Inr (roots, n)" "tr = Some \<lparr>RootCAs = roots\<rparr>" "h' = ?h @ ev"
      by (auto simp: createHTTPTransport_def call_defs Let_def run_state_get split: sum.splits)
    from p r(1) obtain reads where "list_all (\<lambda>d. we_err d = None) ?ds" "ev = file_reads reads"
      "map fst reads = map we_path (filter bundle_file ?ds)" "roots = ?roots @ parsed_bundles E reads"
      by (auto simp: walk_post_def)
    with False r show ?thesis by simp (rule exI [of _ True], simp, rule exI [of _ reads], simp)
  next
    case isFile: False
    from assms False d isFile obtain b where "h' = h @ [ESystemCertPool pool, EStat path (Inr False)] @ [EReadFile path (Inr b)]"
      "tr = Some \<lparr>RootCAs = fst (appendCerts E b (?roots, 0))\<rparr>"
      by (auto simp: createHTTPTransport_def call_defs Let_def split: sum.splits)
    with False show ?thesis
      by (cases "pem_ok (sys E) b"; simp add: appendCerts_def)
        (rule exI [of _ False], simp, rule exI [of _ "[(path, Inr b)]"], simp)+
  qed
qed

text \<open>A directory with a readable bundle, an unreadable one, and a file that is none.\<close>

definition cert_env :: env where
  "cert_env = sample_env\<lparr>sys := sample_sys\<lparr>os_Getenv := \<lambda>_. ''/certs'', os_Stat := \<lambda>h p. Inr True,
     os_WalkDir := \<lambda>h p. [\<lparr>we_path = ''/certs'', we_Name = ''certs'', we_IsDir = True, we_err = None\<rparr>,
       \<lparr>we_path = ''/certs/A.PEM'', we_Name = ''A.PEM'', we_IsDir = False, we_err = None\<rparr>,
       \<lparr>we_path = ''/certs/b.crt'', we_Name = ''b.crt'', we_IsDir = False, we_err = None\<rparr>,
       \<lparr>we_path = ''/certs/README'', we_Name = ''README'', we_IsDir = False, we_err = None\<rparr>],
     os_ReadFile := \<lambda>h p. if p = ''/certs/A.PEM'' then Inr ''PEM'' else Inl (LibError ''permission denied'')\<rparr>\<rparr>"

lemma cert_names:
  "isCertName ''A.PEM''" "isCertName ''b.crt''" "\<not> isCertName ''README''"
  by code_simp+

lemma cert_run:
  "run_state (createHTTPTransport cert_env) [] = (Inr (Some \<lparr>RootCAs = [''system'', ''PEM'']\<rparr>),
     [ESystemCertPool (Inr [''system'']), EStat ''/certs'' (Inr True), EReadFile ''/certs/A.PEM'' (Inr ''PEM''),
      EReadFile ''/certs/b.crt'' (Inl (LibError ''permission denied''))])"
  by (simp add: createHTTPTransport_def call_defs appendCerts_def cert_env_def sample_sys_def Let_def run_state_get cert_names)

theorem createHTTPTransport_pool_witness:
  "\<exists>isDir reads. [ESystemCertPool (Inr [''system'']), EStat ''/certs'' (Inr True), EReadFile ''/certs/A.PEM'' (Inr ''PEM''),
      EReadFile ''/certs/b.crt'' (Inl (LibError ''permission denied''))]
        = [] @ [ESystemCertPool (Inr [''system'']), EStat ''/certs'' (Inr isDir)] @ file_reads reads
    \<and> [''system'', ''PEM''] = [''system''] @ parsed_bundles cert_env reads"
  using createHTTPTransport_pool [OF cert_run refl refl] by (auto simp: cert_env_def sample_sys_def)

section \<open>Deletions in the sample world\<close>

lemma DeletePort_sample:
  "gopher E = sample_gopher \<Longrightarrow>
     run_state (DeletePort E c i) h =
       (None, h @ [EPortGet c i (Inr sample_port),
                   ETagsList c ''ports'' i (Inr [''managed-by=openstack-lb-operator'']), EPortDelete c i None])"
  by (simp add: DeletePort_def deleteResource_def checkPortExists_def call_defs
      isResourceOwnedByOperator_def tag_const_defs sample_gopher_def)

lemma DeleteFloatingIP_sample:
  "gopher E = sample_gopher \<Longrightarrow>
     run_state (DeleteFloatingIP E c i) h =
       (None, h @ [EFipGet c i (Inr sample_fip),
                   ETagsList c ''floatingips'' i (Inr [''managed-by=openstack-lb-operator'']), EFipDelete c i None])"
  by (simp add: DeleteFloatingIP_def deleteResource_def checkFloatingIPExists_def call_defs
      isResourceOwnedByOperator_def tag_const_defs sample_gopher_def)

end
