(* ===== verification/Controller_Utils.thy ===== *)
theory Controller_Utils
  imports Openstack_Client
begin

text \<open>
  \<open>src/internal/controller/utils.go\<close>: constants, matching of services to load balancer classes,
  the retried updates of services and load balancers, status conditions, and the forced removal of
  finalizers. (\<open>HandleServiceFinalizationWithForce\<close>, in the same file, calls the cleanup handler
  and is in the theory Resource_Cleanup.)

  The retried updates run a closure under \<open>wait.ExponentialBackoff\<close>; each closure is a definition
  of its own, named \<open>\<dots>_attempt\<close>.
\<close>

section \<open>Constants\<close>

definition ConditionTypeReady :: string where "ConditionTypeReady = ''Ready''"
definition ConditionTypeNetworkDetected :: string where
  "ConditionTypeNetworkDetected = ''NetworkDetected''"
definition ConditionTypePortCreated :: string where "ConditionTypePortCreated = ''PortCreated''"
definition ConditionTypeFloatingIPCreated :: string where
  "ConditionTypeFloatingIPCreated = ''FloatingIPCreated''"

definition OpenstackLBFinalizer :: string where
  "OpenstackLBFinalizer = ''openstack.jacero.io/finalizer''"
definition ServiceFinalizer :: string where
  "ServiceFinalizer = ''openstack.jacero.io/service-finalizer''"

definition AnnotationLoadBalancerClass :: string where
  "AnnotationLoadBalancerClass = ''service.kubernetes.io/loadbalancer-class''"
definition AnnotationPortID :: string where "AnnotationPortID = ''openstack.jacero.io/port-id''"
definition AnnotationFloatingIPID :: string where
  "AnnotationFloatingIPID = ''openstack.jacero.io/floating-ip-id''"
definition AnnotationCredentialsSecretName :: string where
  "AnnotationCredentialsSecretName = ''openstack.jacero.io/credentials-secret-name''"
definition AnnotationCredentialsSecretNamespace :: string where
  "AnnotationCredentialsSecretNamespace = ''openstack.jacero.io/credentials-secret-namespace''"

lemmas annotation_defs =
  AnnotationLoadBalancerClass_def AnnotationPortID_def AnnotationFloatingIPID_def
  AnnotationCredentialsSecretName_def AnnotationCredentialsSecretNamespace_def

lemma annotation_keys_neq:
  "AnnotationLoadBalancerClass \<noteq> AnnotationPortID" "AnnotationLoadBalancerClass \<noteq> AnnotationFloatingIPID"
  "AnnotationLoadBalancerClass \<noteq> AnnotationCredentialsSecretName" "AnnotationLoadBalancerClass \<noteq> AnnotationCredentialsSecretNamespace"
  "AnnotationPortID \<noteq> AnnotationFloatingIPID" "AnnotationPortID \<noteq> AnnotationCredentialsSecretName"
  "AnnotationPortID \<noteq> AnnotationCredentialsSecretNamespace" "AnnotationFloatingIPID \<noteq> AnnotationCredentialsSecretName"
  "AnnotationFloatingIPID \<noteq> AnnotationCredentialsSecretNamespace" "AnnotationCredentialsSecretName \<noteq> AnnotationCredentialsSecretNamespace"
  by (simp_all add: annotation_defs)

lemmas annotation_keys_distinct = annotation_keys_neq annotation_keys_neq [symmetric]

lemmas condition_type_defs =
  ConditionTypeReady_def ConditionTypeNetworkDetected_def ConditionTypePortCreated_def
  ConditionTypeFloatingIPCreated_def

definition RetryBackoff :: Backoff where
  "RetryBackoff = \<lparr>Steps = 5, Duration = 100 * 1000000, Factor = (2, 1), Jitter = (1, 10)\<rparr>"

section \<open>Services\<close>

definition getOpenStackClient :: "env \<Rightarrow> OpenStackLoadBalancer \<Rightarrow> (error + Client) io" where
  "getOpenStackClient E lb =
     NewClient E (refName (ApplicationCredentialSecretRef (Spec lb)))
       (refNamespace (ApplicationCredentialSecretRef (Spec lb)))"

definition isServiceMatchingLBClass :: "Service \<Rightarrow> string \<Rightarrow> bool" where
  "isServiceMatchingLBClass svc className =
     (if LoadBalancerClass svc \<noteq> None \<and> the (LoadBalancerClass svc) = className then True
      else if gmap_lookup (svcAnnotations svc) AnnotationLoadBalancerClass = Some className then True
      else False)"

definition hasAnnotation :: "Service \<Rightarrow> string \<Rightarrow> bool" where
  "hasAnnotation svc key =
     (case svcAnnotations svc of
        None \<Rightarrow> False
      | Some m \<Rightarrow> (case m key of None \<Rightarrow> False | Some v \<Rightarrow> v \<noteq> []))"

text \<open>Port ID and floating IP ID, empty when absent.\<close>

definition extractResourceIDsFromAnnotations :: "Service \<Rightarrow> string \<times> string" where
  "extractResourceIDsFromAnnotations svc =
     (if svcAnnotations svc \<noteq> None
      then (gmap_index (svcAnnotations svc) AnnotationPortID,
            gmap_index (svcAnnotations svc) AnnotationFloatingIPID)
      else ([], []))"

section \<open>Retried updates\<close>

text \<open>A closure that captures no variable it changes.\<close>

definition plain_attempt :: "(bool \<times> error option) io \<Rightarrow> condition_func" where
  "plain_attempt m = (\<lambda>obj. do { r \<leftarrow> m; ret (r, obj) })"

definition backoff_plain :: "env \<Rightarrow> (bool \<times> error option) io \<Rightarrow> Service \<Rightarrow> error option io" where
  "backoff_plain E m svc = do {
     (err, _) \<leftarrow> ExponentialBackoff (lib E) RetryBackoff (plain_attempt m) (SvcObj svc);
     ret err
   }"

definition updateServiceAnnotation_attempt ::
  "env \<Rightarrow> Service \<Rightarrow> string \<Rightarrow> string \<Rightarrow> (bool \<times> error option) io" where
  "updateServiceAnnotation_attempt E svc key v = do {
     current \<leftarrow> GetSvc E (svcKey svc);
     case current of
       Inl e \<Rightarrow> if IsNotFound (lib E) e then ret (True, None) else ret (False, None)
     | Inr currentSvc \<Rightarrow>
         (let svcCopy = svcSetAnnotations currentSvc
                (Some ((gmap_make (svcAnnotations currentSvc))(key \<mapsto> v)))
          in do {
            upd \<leftarrow> Update E (SvcObj svcCopy);
            case upd of
              Inl e \<Rightarrow> if IsConflict (lib E) e then ret (False, None) else ret (False, Some e)
            | Inr _ \<Rightarrow> ret (True, None)
          })
   }"

definition updateServiceAnnotationWithRetry ::
  "env \<Rightarrow> Service \<Rightarrow> string \<Rightarrow> string \<Rightarrow> error option io" where
  "updateServiceAnnotationWithRetry E svc key v =
     backoff_plain E (updateServiceAnnotation_attempt E svc key v) svc"

definition updateMultipleServiceAnnotations_attempt ::
  "env \<Rightarrow> Service \<Rightarrow> (string \<times> string) list \<Rightarrow> (bool \<times> error option) io" where
  "updateMultipleServiceAnnotations_attempt E svc annotations = do {
     current \<leftarrow> GetSvc E (svcKey svc);
     case current of
       Inl e \<Rightarrow> if IsNotFound (lib E) e then ret (True, None) else ret (False, None)
     | Inr currentSvc \<Rightarrow>
         (let svcCopy = svcSetAnnotations currentSvc
                (Some (gmap_put (gmap_make (svcAnnotations currentSvc))
                         (map_range (sys E) annotations)))
          in do {
            upd \<leftarrow> Update E (SvcObj svcCopy);
            case upd of
              Inl e \<Rightarrow> if IsConflict (lib E) e then ret (False, None) else ret (False, Some e)
            | Inr _ \<Rightarrow> ret (True, None)
          })
   }"

definition updateMultipleServiceAnnotations ::
  "env \<Rightarrow> Service \<Rightarrow> (string \<times> string) list \<Rightarrow> error option io" where
  "updateMultipleServiceAnnotations E svc annotations =
     backoff_plain E (updateMultipleServiceAnnotations_attempt E svc annotations) svc"

definition copyStatus ::
  "OpenStackLoadBalancer \<Rightarrow> OpenStackLoadBalancer \<Rightarrow> OpenStackLoadBalancer" where
  "copyStatus lb lbCopy = lbCopy\<lparr>Status := (Status lbCopy)\<lparr>
     Conditions := Conditions (Status lb),
     LBNetworkID := LBNetworkID (Status lb),
     LBSubnetID := LBSubnetID (Status lb),
     Ready := Ready (Status lb)\<rparr>\<rparr>"

text \<open>
  The closure of \<open>updateStatusWithRetry\<close> copies the stored status back into the captured object.
\<close>

fun updateStatus_attempt :: "env \<Rightarrow> condition_func" where
  "updateStatus_attempt E (SvcObj svc) = ret ((True, None), SvcObj svc)"
| "updateStatus_attempt E (LBObj lb) = do {
     current \<leftarrow> GetLB E (lbKey lb);
     case current of
       Inl e \<Rightarrow> if IsNotFound (lib E) e then ret ((True, None), LBObj lb)
                else ret ((False, None), LBObj lb)
     | Inr cur \<Rightarrow> do {
         upd \<leftarrow> StatusUpdate E (copyStatus lb cur);
         case upd of
           Inl e \<Rightarrow> if IsConflict (lib E) e then ret ((False, None), LBObj lb)
                    else ret ((False, Some e), LBObj lb)
         | Inr lbCopy \<Rightarrow> ret ((True, None), LBObj (lb\<lparr>Status := Status lbCopy\<rparr>))
       }
   }"

definition updateStatusWithRetry ::
  "env \<Rightarrow> OpenStackLoadBalancer \<Rightarrow> (error option \<times> OpenStackLoadBalancer) io" where
  "updateStatusWithRetry E lb = do {
     (err, obj) \<leftarrow> ExponentialBackoff (lib E) RetryBackoff (updateStatus_attempt E) (LBObj lb);
     ret (err, case obj of LBObj lb' \<Rightarrow> lb' | SvcObj _ \<Rightarrow> lb)
   }"

text \<open>\<open>Get\<close> through \<open>client.Object\<close>: the metadata of the stored object of the same kind.\<close>

fun GetObj :: "env \<Rightarrow> Object \<Rightarrow> (error + Object) io" where
  "GetObj E (LBObj lb) = do { r \<leftarrow> GetLB E (lbKey lb); ret (map_sum id LBObj r) }"
| "GetObj E (SvcObj svc) = do { r \<leftarrow> GetSvc E (svcKey svc); ret (map_sum id SvcObj r) }"

text \<open>
  The closure of \<open>updateResourceWithRetry\<close> overwrites the resource version of the captured object
  and, on success, the object with the server's answer.
\<close>

definition updateResource_attempt :: "env \<Rightarrow> condition_func" where
  "updateResource_attempt E obj = do {
     current \<leftarrow> GetObj E obj;
     case current of
       Inl e \<Rightarrow> if IsNotFound (lib E) e then ret ((True, None), obj) else ret ((False, None), obj)
     | Inr cur \<Rightarrow>
         (let obj' = SetResourceVersion obj (ResourceVersion (objMeta cur)) in do {
            upd \<leftarrow> Update E obj';
            case upd of
              Inl e \<Rightarrow> if IsConflict (lib E) e then ret ((False, None), obj')
                       else ret ((False, Some e), obj')
            | Inr stored \<Rightarrow> ret ((True, None), stored)
          })
   }"

definition updateResourceWithRetry :: "env \<Rightarrow> Object \<Rightarrow> error option io" where
  "updateResourceWithRetry E obj = do {
     (err, _) \<leftarrow> ExponentialBackoff (lib E) RetryBackoff (updateResource_attempt E) obj;
     ret err
   }"

definition updateServiceExternalIPs_attempt ::
  "env \<Rightarrow> Service \<Rightarrow> string \<Rightarrow> (bool \<times> error option) io" where
  "updateServiceExternalIPs_attempt E svc floatingIPAddress = do {
     current \<leftarrow> GetSvc E (svcKey svc);
     case current of
       Inl e \<Rightarrow> if IsNotFound (lib E) e then ret (True, None) else ret (False, None)
     | Inr currentSvc \<Rightarrow>
         if floatingIPAddress \<in> set (ExternalIPs currentSvc) then ret (True, None)
         else do {
           upd \<leftarrow> Update E (SvcObj (currentSvc\<lparr>ExternalIPs := ExternalIPs currentSvc @ [floatingIPAddress]\<rparr>));
           case upd of
             Inl e \<Rightarrow> if IsConflict (lib E) e then ret (False, None) else ret (False, Some e)
           | Inr _ \<Rightarrow> ret (True, None)
         }
   }"

definition updateServiceExternalIPs :: "env \<Rightarrow> Service \<Rightarrow> string \<Rightarrow> error option io" where
  "updateServiceExternalIPs E svc floatingIPAddress =
     backoff_plain E (updateServiceExternalIPs_attempt E svc floatingIPAddress) svc"

section \<open>Status conditions\<close>

definition mkCondition ::
  "string \<Rightarrow> ConditionStatus \<Rightarrow> time \<Rightarrow> string \<Rightarrow> string \<Rightarrow> Condition" where
  "mkCondition conditionType status now reason msg =
     \<lparr>CondType = conditionType, CondStatus = status, ObservedGeneration = 0,
      LastTransitionTime = now, Reason = reason, Message = msg\<rparr>"

fun setCondition_loop ::
  "string \<Rightarrow> ConditionStatus \<Rightarrow> string \<Rightarrow> string \<Rightarrow> time \<Rightarrow> Condition list \<Rightarrow> Condition list" where
  "setCondition_loop conditionType status reason msg now [] =
     [mkCondition conditionType status now reason msg]"
| "setCondition_loop conditionType status reason msg now (c # cs) =
     (if CondType c = conditionType then
        (if CondStatus c \<noteq> status \<or> Reason c \<noteq> reason \<or> Message c \<noteq> msg
         then mkCondition conditionType status now reason msg # cs
         else c # cs)
      else c # setCondition_loop conditionType status reason msg now cs)"

definition setCondition ::
  "env \<Rightarrow> OpenStackLoadBalancer \<Rightarrow> string \<Rightarrow> ConditionStatus \<Rightarrow> string \<Rightarrow> string \<Rightarrow>
     OpenStackLoadBalancer io" where
  "setCondition E lb conditionType status reason msg = do {
     now \<leftarrow> Now E;
     ret (lb\<lparr>Status := (Status lb)\<lparr>Conditions :=
       Some (setCondition_loop conditionType status reason msg now
               (case Conditions (Status lb) of None \<Rightarrow> [] | Some cs \<Rightarrow> cs))\<rparr>\<rparr>)
   }"

section \<open>Finalizers\<close>

definition finalizersNullPatch :: string where
  "finalizersNullPatch = ''{\"metadata\":{\"finalizers\":null}}''"

definition forceFinalizerRemoval :: "env \<Rightarrow> Service \<Rightarrow> error option io" where
  "forceFinalizerRemoval E svc =
     (if IsZero (DeletionTimestamp (svcMeta svc)) then ret None
      else RetryOnConflict (lib E) (DefaultRetry (lib E)) (PatchSvc E svc finalizersNullPatch))"

definition shouldForceCleanup :: "env \<Rightarrow> Service \<Rightarrow> bool" where
  "shouldForceCleanup E svc =
     (if \<not> IsZero (DeletionTimestamp (svcMeta svc))
         \<and> ContainsFinalizer (lib E) (svcFinalizers svc) ServiceFinalizer
      then hasAnnotation svc AnnotationPortID \<or> hasAnnotation svc AnnotationFloatingIPID
      else False)"

section \<open>Audited traces\<close>

context audited begin

lemma safe_backoff_plain:
  assumes "backoff_spec (lib E)" and "emits m (\<lambda>_. P)"
  shows "emits (backoff_plain E m svc) (\<lambda>_. P)"
  unfolding backoff_plain_def plain_attempt_def
  by (intro safe_intros safe_backoff assms)

lemma safe_updateServiceAnnotationWithRetry:
  "backoff_spec (lib E) \<Longrightarrow> emits (updateServiceAnnotationWithRetry E svc key v) (\<lambda>_. P)"
  unfolding updateServiceAnnotationWithRetry_def updateServiceAnnotation_attempt_def
  by (intro safe_backoff_plain safe_intros safe_calls)

lemma safe_updateMultipleServiceAnnotations:
  "backoff_spec (lib E) \<Longrightarrow> emits (updateMultipleServiceAnnotations E svc kvs) (\<lambda>_. P)"
  unfolding updateMultipleServiceAnnotations_def updateMultipleServiceAnnotations_attempt_def
  by (intro safe_backoff_plain safe_intros safe_calls)

lemma safe_updateServiceExternalIPs:
  "backoff_spec (lib E) \<Longrightarrow> emits (updateServiceExternalIPs E svc ip) (\<lambda>_. P)"
  unfolding updateServiceExternalIPs_def updateServiceExternalIPs_attempt_def
  by (intro safe_backoff_plain safe_intros safe_calls)

lemma safe_updateStatus_attempt: "emits (updateStatus_attempt E obj) (\<lambda>_. P)"
  by (cases obj; simp only: updateStatus_attempt.simps) (intro safe_intros safe_calls)+

lemma safe_updateStatusWithRetry:
  "backoff_spec (lib E) \<Longrightarrow> emits (updateStatusWithRetry E lb) (\<lambda>_. P)"
  unfolding updateStatusWithRetry_def
  by (intro safe_intros safe_backoff safe_updateStatus_attempt)

lemma safe_GetObj: "emits (GetObj E obj) (\<lambda>_. P)"
  by (cases obj; simp only: GetObj.simps) (intro safe_intros safe_calls)+

lemma safe_updateResourceWithRetry:
  "backoff_spec (lib E) \<Longrightarrow> emits (updateResourceWithRetry E obj) (\<lambda>_. P)"
  unfolding updateResourceWithRetry_def updateResource_attempt_def
  by (intro safe_intros safe_backoff safe_GetObj safe_calls)

lemma safe_setCondition: "emits (setCondition E lb ct st reason msg) (\<lambda>_. P)"
  unfolding setCondition_def by (intro safe_intros safe_calls)

lemma safe_forceFinalizerRemoval:
  "conflict_spec (lib E) \<Longrightarrow> emits (forceFinalizerRemoval E svc) (\<lambda>_. P)"
  unfolding forceFinalizerRemoval_def by (intro safe_intros safe_conflict safe_calls)

lemma safe_getOpenStackClient: "emits (getOpenStackClient E lb) (\<lambda>_. P)"
  unfolding getOpenStackClient_def by (rule safe_NewClient)

lemmas safe_utils =
  safe_updateServiceAnnotationWithRetry safe_updateMultipleServiceAnnotations
  safe_updateServiceExternalIPs safe_updateStatusWithRetry safe_updateResourceWithRetry
  safe_setCondition safe_forceFinalizerRemoval

end

section \<open>Status conditions as a map\<close>

text \<open>
  The abstract view of the conditions: a map from condition types to status, reason and message.
\<close>

definition cond_list :: "OpenStackLoadBalancer \<Rightarrow> Condition list" where
  "cond_list lb = (case Conditions (Status lb) of None \<Rightarrow> [] | Some cs \<Rightarrow> cs)"

definition cond_map :: "OpenStackLoadBalancer \<Rightarrow> string \<rightharpoonup> ConditionStatus \<times> string \<times> string" where
  "cond_map lb = map_of (map (\<lambda>c. (CondType c, (CondStatus c, Reason c, Message c))) (cond_list lb))"

lemma setCondition_run:
  "run_state (setCondition E lb t s r m) h =
     (lb\<lparr>Status := (Status lb)\<lparr>Conditions :=
        Some (setCondition_loop t s r m (k8s_Now (k8s E) h) (cond_list lb))\<rparr>\<rparr>, h @ [ENow (k8s_Now (k8s E) h)])"
  by (simp add: setCondition_def Now_def cond_list_def)

lemma setCondition_loop_map:
  "map_of (map (\<lambda>c. (CondType c, (CondStatus c, Reason c, Message c))) (setCondition_loop t s r m now cs))
   = (map_of (map (\<lambda>c. (CondType c, (CondStatus c, Reason c, Message c))) cs))(t \<mapsto> (s, r, m))"
  by (induction cs) (auto simp: mkCondition_def fun_eq_iff)

lemma setCondition_loop_types:
  "map CondType (setCondition_loop t s r m now cs) =
     (if t \<in> set (map CondType cs) then map CondType cs else map CondType cs @ [t])"
  by (induction cs) (auto simp: mkCondition_def)

lemma setCondition_loop_others:
  "filter (\<lambda>c. CondType c \<noteq> t) (setCondition_loop t s r m now cs) = filter (\<lambda>c. CondType c \<noteq> t) cs"
  by (induction cs) (auto simp: mkCondition_def)

lemma setCondition_loop_same:
  "map_of (map (\<lambda>c. (CondType c, (CondStatus c, Reason c, Message c))) cs) t = Some (s, r, m) \<Longrightarrow>
   setCondition_loop t s r m now cs = cs"
  by (induction cs) (auto split: if_splits)

text \<open>
  C14: \<open>setCondition\<close> implements a map update. The condition of the given type gets the given
  status, reason and message, whether or not it existed; the conditions of all other types, their
  transition times included, and every other field of the load balancer are unchanged.
\<close>

theorem setCondition_refines_map_update:
  "case run_state (setCondition E lb t s r m) h of (lb', h') \<Rightarrow>
     cond_map lb' = (cond_map lb)(t \<mapsto> (s, r, m))
     \<and> filter (\<lambda>c. CondType c \<noteq> t) (cond_list lb') = filter (\<lambda>c. CondType c \<noteq> t) (cond_list lb)
     \<and> lb' = lb\<lparr>Status := (Status lb)\<lparr>Conditions := Some (cond_list lb')\<rparr>\<rparr>"
  by (simp add: setCondition_run cond_map_def cond_list_def [of "_\<lparr>Status := _\<rparr>"]
      setCondition_loop_map setCondition_loop_others)

text \<open>
  C32: \<open>setCondition\<close> keeps at most one condition per type, and setting a condition to the values it
  already has changes nothing, so its transition time stays that of the last real change.
\<close>

theorem setCondition_keeps_types_distinct:
  assumes "run_state (setCondition E lb t s r m) h = (lb', h')"
    and "distinct (map CondType (cond_list lb))"
  shows "distinct (map CondType (cond_list lb'))
    \<and> (cond_map lb t = Some (s, r, m) \<longrightarrow> cond_list lb' = cond_list lb)"
  using assms
  by (auto simp: setCondition_run cond_map_def cond_list_def [of "_\<lparr>Status := _\<rparr>"]
      setCondition_loop_types setCondition_loop_same)

definition sample_ready :: Condition where
  "sample_ready = mkCondition ''Ready'' ConditionTrue 3 ''ResourcesReady'' ''ok''"

definition sample_lb_ready :: OpenStackLoadBalancer where
  "sample_lb_ready = sample_lb\<lparr>Status := (Status sample_lb)\<lparr>Conditions := Some [sample_ready]\<rparr>\<rparr>"

theorem setCondition_keeps_types_distinct_witness:
  "distinct (map CondType (cond_list sample_lb_ready))
    \<and> cond_list (fst (run_state (setCondition sample_env sample_lb_ready ''Ready'' ConditionTrue
        ''ResourcesReady'' ''ok'') [])) = cond_list sample_lb_ready"
proof -
  obtain lb' h' where r: "run_state (setCondition sample_env sample_lb_ready ''Ready'' ConditionTrue
      ''ResourcesReady'' ''ok'') [] = (lb', h')"
    by (metis prod.collapse)
  have d: "distinct (map CondType (cond_list sample_lb_ready))"
    and m: "cond_map sample_lb_ready ''Ready'' = Some (ConditionTrue, ''ResourcesReady'', ''ok'')"
    by (simp_all add: cond_map_def cond_list_def sample_lb_ready_def sample_ready_def mkCondition_def)
  from setCondition_keeps_types_distinct [OF r d] m d r show ?thesis by simp
qed

section \<open>Reading, modifying, writing\<close>

lemma Steps_RetryBackoff: "Steps RetryBackoff = 5"
  by (simp add: RetryBackoff_def)

text \<open>
  The trace of a read-modify-write loop on the service \<open>k\<close>: every write follows a read of the
  stored service right before it, and sends what was read with \<open>f\<close> applied to it (\<^term>\<open>None\<close>:
  nothing to write).
\<close>

fun rmw :: "NamespacedName \<Rightarrow> (Service \<Rightarrow> Service option) \<Rightarrow> event list \<Rightarrow> bool" where
  "rmw k f [] = True"
| "rmw k f (EGetSvc k' (Inl e) # es) = (k' = k \<and> rmw k f es)"
| "rmw k f (EGetSvc k' (Inr svc) # es) = (k' = k \<and>
     (case f svc of
        None \<Rightarrow> rmw k f es
      | Some svc' \<Rightarrow> (case es of EUpdate obj r # es' \<Rightarrow> obj = SvcObj svc' \<and> rmw k f es' | _ \<Rightarrow> False)))"
| "rmw k f _ = False"

lemma rmw_append: "rmw k f xs \<Longrightarrow> rmw k f ys \<Longrightarrow> rmw k f (xs @ ys)"
  by (induction k f xs rule: rmw.induct) (auto split: option.splits list.splits event.splits)

interpretation rmw: trace_prop "rmw k f" for k f
  by unfold_locales (auto intro: rmw_append)

text \<open>
  The attempt that ends the loop: the service is gone, nothing has to be written, or the write
  succeeded; otherwise a write failed with something else than a conflict.
\<close>

definition rmw_done :: "library \<Rightarrow> (Service \<Rightarrow> Service option) \<Rightarrow> error option \<Rightarrow> event list \<Rightarrow> bool" where
  "rmw_done L f err ev \<longleftrightarrow>
     (case err of
        None \<Rightarrow> (\<exists>k e. ev = [EGetSvc k (Inl e)] \<and> IsNotFound L e)
          \<or> (\<exists>k svc. ev = [EGetSvc k (Inr svc)] \<and> f svc = None)
          \<or> (\<exists>k svc obj stored. ev = [EGetSvc k (Inr svc), EUpdate obj (Inr stored)])
      | Some e \<Rightarrow> \<exists>k svc obj. ev = [EGetSvc k (Inr svc), EUpdate obj (Inl e)] \<and> \<not> IsConflict L e)"

text \<open>The three closures over services are instances of one attempt.\<close>

definition rmw_attempt ::
  "env \<Rightarrow> NamespacedName \<Rightarrow> (Service \<Rightarrow> Service option) \<Rightarrow> (bool \<times> error option) io" where
  "rmw_attempt E k f = do {
     current \<leftarrow> GetSvc E k;
     case current of
       Inl e \<Rightarrow> ret (if IsNotFound (lib E) e then (True, None) else (False, None))
     | Inr svc \<Rightarrow>
         (case f svc of
            None \<Rightarrow> ret (True, None)
          | Some svc' \<Rightarrow> do {
              upd \<leftarrow> Update E (SvcObj svc');
              case upd of
                Inl e \<Rightarrow> ret (False, if IsConflict (lib E) e then None else Some e)
              | Inr _ \<Rightarrow> ret (True, None)
            })
   }"

interpretation rmw_update: retried "rmw k f" "plain_attempt (rmw_attempt E k f)" "\<lambda>_. True"
    "rmw_done (lib E) f" 2 for E k f
  by unfold_locales
    (auto simp: plain_attempt_def rmw_attempt_def GetSvc_def Update_def rmw_done_def
      intro!: emits_bind emits_call emits_return split: sum.split option.split)

text \<open>
  What a retried update of a service promises: at most five rounds of two calls, all reads and
  writes as above, and a result other than a timeout is that of the attempt that ended it.
\<close>

definition rmw_result ::
  "env \<Rightarrow> NamespacedName \<Rightarrow> (Service \<Rightarrow> Service option) \<Rightarrow> history \<Rightarrow> error option \<times> history \<Rightarrow> bool" where
  "rmw_result E k f h res \<longleftrightarrow>
     (\<exists>ev. snd res = h @ ev \<and> rmw k f ev \<and> length ev \<le> 10
        \<and> (fst res = Some ErrWaitTimeout
            \<or> (\<exists>ev2. suffix ev2 ev \<and> rmw_done (lib E) f (fst res) ev2)))"

lemma rmw_with_retry:
  assumes "backoff_spec (lib E)"
  shows "rmw_result E k f h (run_state (backoff_plain E (rmw_attempt E k f) svc) h)"
proof -
  obtain err obj' h' where r: "run_state (ExponentialBackoff (lib E) RetryBackoff
      (plain_attempt (rmw_attempt E k f)) (SvcObj svc)) h = ((err, obj'), h')"
    by (metis prod.collapse)
  from rmw_update.backoff_outcome [OF assms TrueI this] show ?thesis
    unfolding rmw_result_def by (simp add: backoff_plain_def r Steps_RetryBackoff)
qed

definition setAnnotation :: "string \<Rightarrow> string \<Rightarrow> Service \<Rightarrow> Service" where
  "setAnnotation k v svc = svcSetAnnotations svc (Some ((gmap_make (svcAnnotations svc))(k \<mapsto> v)))"

definition setAnnotations :: "(string \<times> string) list \<Rightarrow> Service \<Rightarrow> Service" where
  "setAnnotations kvs svc = svcSetAnnotations svc (Some (gmap_make (svcAnnotations svc) ++ map_of kvs))"

definition addExternalIP :: "string \<Rightarrow> Service \<Rightarrow> Service option" where
  "addExternalIP ip svc =
     (if ip \<in> set (ExternalIPs svc) then None else Some (svc\<lparr>ExternalIPs := ExternalIPs svc @ [ip]\<rparr>))"

lemma updateServiceAnnotation_attempt_rmw:
  "updateServiceAnnotation_attempt E svc key v = rmw_attempt E (svcKey svc) (\<lambda>s. Some (setAnnotation key v s))"
  unfolding updateServiceAnnotation_attempt_def rmw_attempt_def setAnnotation_def Let_def option.case
  by (rule bind_eqI) (auto split: sum.split intro!: bind_eqI)

lemma updateServiceExternalIPs_attempt_rmw:
  "updateServiceExternalIPs_attempt E svc ip = rmw_attempt E (svcKey svc) (addExternalIP ip)"
  unfolding updateServiceExternalIPs_attempt_def rmw_attempt_def addExternalIP_def Let_def option.case
  by (rule bind_eqI) (auto split: sum.split intro!: bind_eqI)

lemma updateMultipleServiceAnnotations_attempt_rmw:
  assumes "range_spec (sys E)" and "distinct (map fst kvs)"
  shows "updateMultipleServiceAnnotations_attempt E svc kvs
    = rmw_attempt E (svcKey svc) (\<lambda>s. Some (setAnnotations kvs s))"
proof -
  note r = range_spec_map_of [OF assms]
  show ?thesis
    unfolding updateMultipleServiceAnnotations_attempt_def rmw_attempt_def setAnnotations_def
      gmap_put_map_of [OF conjunct1 [OF r]] conjunct2 [OF r] Let_def option.case
    by (rule bind_eqI) (auto split: sum.split intro!: bind_eqI)
qed

text \<open>
  C15: \<open>updateServiceAnnotationWithRetry\<close> makes at most ten calls; each write sends the service as
  just read with exactly the one annotation set; it returns nil only if the service is gone or a
  write was accepted, and an error only if a write failed for another reason than a conflict or
  five attempts did not suffice.
\<close>

theorem updateServiceAnnotationWithRetry_rmw:
  assumes "backoff_spec (lib E)"
  shows "rmw_result E (svcKey svc) (\<lambda>s. Some (setAnnotation key v s)) h
    (run_state (updateServiceAnnotationWithRetry E svc key v) h)"
  unfolding updateServiceAnnotationWithRetry_def updateServiceAnnotation_attempt_rmw
  by (rule rmw_with_retry) (rule assms)

theorem updateServiceAnnotationWithRetry_rmw_witness:
  "rmw_result sample_env (svcKey sample_svc) (\<lambda>s. Some (setAnnotation ''k'' ''v'' s)) []
    (run_state (updateServiceAnnotationWithRetry sample_env sample_svc ''k'' ''v'') [])"
  by (rule updateServiceAnnotationWithRetry_rmw) simp

text \<open>
  C16: \<open>updateMultipleServiceAnnotations\<close> behaves as the update of one annotation does, with all
  entries of the given map set in one write: the result does not depend on the order in which the
  map is ranged over.
\<close>

theorem updateMultipleServiceAnnotations_rmw:
  assumes "backoff_spec (lib E)" and "range_spec (sys E)" and "distinct (map fst kvs)"
  shows "rmw_result E (svcKey svc) (\<lambda>s. Some (setAnnotations kvs s)) h
    (run_state (updateMultipleServiceAnnotations E svc kvs) h)"
  unfolding updateMultipleServiceAnnotations_def
    updateMultipleServiceAnnotations_attempt_rmw [OF assms(2,3)]
  by (rule rmw_with_retry) (rule assms)

theorem updateMultipleServiceAnnotations_rmw_witness:
  "rmw_result sample_env (svcKey sample_svc) (\<lambda>s. Some (setAnnotations [(''a'', ''1''), (''b'', ''2'')] s)) []
    (run_state (updateMultipleServiceAnnotations sample_env sample_svc [(''a'', ''1''), (''b'', ''2'')]) [])"
  by (rule updateMultipleServiceAnnotations_rmw) simp_all

text \<open>
  \<open>updateServiceExternalIPs\<close> appends the address to the external IPs of the service as just
  read, and writes nothing when it is already there.
\<close>

theorem updateServiceExternalIPs_rmw:
  assumes "backoff_spec (lib E)"
  shows "rmw_result E (svcKey svc) (addExternalIP ip) h
    (run_state (updateServiceExternalIPs E svc ip) h)"
  unfolding updateServiceExternalIPs_def updateServiceExternalIPs_attempt_rmw
  by (rule rmw_with_retry) (rule assms)

theorem updateServiceExternalIPs_rmw_witness:
  "rmw_result sample_env (svcKey sample_svc) (addExternalIP ''203.0.113.7'') []
    (run_state (updateServiceExternalIPs sample_env sample_svc ''203.0.113.7'') [])"
  by (rule updateServiceExternalIPs_rmw) simp

section \<open>Status updates\<close>

text \<open>
  Every status write sends the load balancer as just read, with the conditions, the network, the subnet
  and the readiness of the caller's copy.
\<close>

definition status_taken :: "OpenStackLoadBalancer \<Rightarrow> OpenStackLoadBalancer \<Rightarrow> OpenStackLoadBalancer \<Rightarrow> bool" where
  "status_taken lb cur written \<longleftrightarrow>
     lbMeta written = lbMeta cur \<and> Spec written = Spec cur
     \<and> Conditions (Status written) = Conditions (Status lb)
     \<and> LBNetworkID (Status written) = LBNetworkID (Status lb)
     \<and> LBSubnetID (Status written) = LBSubnetID (Status lb)
     \<and> Ready (Status written) = Ready (Status lb)"

lemma status_taken_copyStatus [simp]: "status_taken lb cur (copyStatus lb cur)"
  by (simp add: status_taken_def copyStatus_def)

fun status_rmw :: "OpenStackLoadBalancer \<Rightarrow> event list \<Rightarrow> bool" where
  "status_rmw lb [] = True"
| "status_rmw lb (EGetLB k (Inl e) # es) = (k = lbKey lb \<and> status_rmw lb es)"
| "status_rmw lb (EGetLB k (Inr cur) # EStatusUpdate written r # es) =
     (k = lbKey lb \<and> status_taken lb cur written \<and> status_rmw lb es)"
| "status_rmw lb _ = False"

lemma status_rmw_append: "status_rmw lb xs \<Longrightarrow> status_rmw lb ys \<Longrightarrow> status_rmw lb (xs @ ys)"
  by (induction lb xs rule: status_rmw.induct) auto

interpretation status_rmw: trace_prop "status_rmw lb" for lb
  by unfold_locales (auto intro: status_rmw_append)

definition status_done :: "library \<Rightarrow> error option \<Rightarrow> event list \<Rightarrow> bool" where
  "status_done L err ev \<longleftrightarrow>
     (case err of
        None \<Rightarrow> (\<exists>k e. ev = [EGetLB k (Inl e)] \<and> IsNotFound L e)
          \<or> (\<exists>k cur written stored. ev = [EGetLB k (Inr cur), EStatusUpdate written (Inr stored)])
      | Some e \<Rightarrow> \<exists>k cur written. ev = [EGetLB k (Inr cur), EStatusUpdate written (Inl e)] \<and> \<not> IsConflict L e)"

interpretation status_update: retried "status_rmw lb" "updateStatus_attempt E" "\<lambda>obj. obj = LBObj lb"
    "status_done (lib E)" 2 for E lb
  by unfold_locales
    (auto simp: GetLB_def StatusUpdate_def status_done_def
      intro!: emits_bind emits_call emits_return split: sum.split option.split)

text \<open>
  C17: \<open>updateStatusWithRetry\<close> makes at most ten calls, all of them reads of the load balancer or
  status writes that carry the stored object with only the operator's four status fields
  replaced; its result is that of the attempt that ended the loop, or a timeout.
\<close>

theorem updateStatusWithRetry_writes_status_only:
  assumes "backoff_spec (lib E)" and "run_state (updateStatusWithRetry E lb) h = ((err, lb'), h')"
  shows "\<exists>ev. h' = h @ ev \<and> status_rmw lb ev \<and> length ev \<le> 10
    \<and> (err = Some ErrWaitTimeout \<or> (\<exists>ev2. suffix ev2 ev \<and> status_done (lib E) err ev2))"
proof -
  obtain obj' where
    "run_state (ExponentialBackoff (lib E) RetryBackoff (updateStatus_attempt E) (LBObj lb)) h = ((err, obj'), h')"
    using assms(2) by (auto simp: updateStatusWithRetry_def split: prod.splits)
  from status_update.backoff_outcome [OF assms(1) refl this] show ?thesis
    by (simp add: Steps_RetryBackoff)
qed

lemma backoff_first:
  assumes "backoff_spec L" and "run_state (f obj) h = (((True, None), obj'), h')"
  shows "run_state (ExponentialBackoff L RetryBackoff f obj) h = ((None, obj'), h')"
proof -
  have "Steps RetryBackoff = Suc 4" by (simp add: Steps_RetryBackoff)
  then show ?thesis
    by (simp only: ExponentialBackoff_eq [OF assms(1)] retry_steps.simps) (simp add: assms(2))
qed

theorem updateStatusWithRetry_writes_status_only_witness:
  "\<exists>err lb' h'. run_state (updateStatusWithRetry sample_env sample_lb) [] = ((err, lb'), h')
    \<and> (\<exists>ev. h' = [] @ ev \<and> status_rmw sample_lb ev \<and> length ev \<le> 10
       \<and> (err = Some ErrWaitTimeout \<or> (\<exists>ev2. suffix ev2 ev \<and> status_done (lib sample_env) err ev2)))"
  using updateStatusWithRetry_writes_status_only [of sample_env sample_lb "[]"]
  by (metis ref_library_backoff sample_env_lib surj_pair)

section \<open>Object updates\<close>

text \<open>
  The trace of \<open>updateResourceWithRetry\<close>: reads of the stored object, each successful one followed
  by a write of the caller's object under the resource version just read.
\<close>

fun version_read :: "Object \<Rightarrow> event \<Rightarrow> (error + string) option" where
  "version_read (LBObj lb) (EGetLB k r) =
     (if k = lbKey lb then Some (map_sum id (\<lambda>cur. ResourceVersion (lbMeta cur)) r) else None)"
| "version_read (SvcObj svc) (EGetSvc k r) =
     (if k = svcKey svc then Some (map_sum id (\<lambda>cur. ResourceVersion (svcMeta cur)) r) else None)"
| "version_read _ _ = None"

fun object_write :: "Object \<Rightarrow> event list \<Rightarrow> bool" where
  "object_write obj [] = True"
| "object_write obj (e # es) =
     (case version_read obj e of
        None \<Rightarrow> False
      | Some (Inl _) \<Rightarrow> object_write obj es
      | Some (Inr v) \<Rightarrow>
          (case es of
             EUpdate written r # es' \<Rightarrow> written = SetResourceVersion obj v \<and> object_write obj es'
           | _ \<Rightarrow> False))"

lemma object_write_append: "object_write obj xs \<Longrightarrow> object_write obj ys \<Longrightarrow> object_write obj (xs @ ys)"
  by (induction obj xs rule: object_write.induct) (auto split: option.splits sum.splits list.splits event.splits)

interpretation object_write: trace_prop "object_write obj" for obj
  by unfold_locales (auto intro: object_write_append)

definition same_object :: "Object \<Rightarrow> Object \<Rightarrow> bool" where
  "same_object obj obj' \<longleftrightarrow> (\<exists>v. obj' = SetResourceVersion obj v)"

lemma same_objectI [simp]: "same_object obj (SetResourceVersion obj v)"
  by (auto simp: same_object_def)

lemma SetResourceVersion_same [simp]: "SetResourceVersion obj (ResourceVersion (objMeta obj)) = obj"
  by (cases obj) simp_all

lemma SetResourceVersion_twice [simp]: "SetResourceVersion (SetResourceVersion obj v) w = SetResourceVersion obj w"
  by (cases obj) simp_all

lemma version_read_SetResourceVersion [simp]: "version_read (SetResourceVersion obj v) e = version_read obj e"
  by (cases obj; cases e) (simp_all add: svcKey_def lbKey_def)

definition object_done :: "library \<Rightarrow> error option \<Rightarrow> event list \<Rightarrow> bool" where
  "object_done L err ev \<longleftrightarrow>
     (case err of
        None \<Rightarrow> (\<exists>e. (\<exists>k. ev = [EGetLB k (Inl e)] \<or> ev = [EGetSvc k (Inl e)]) \<and> IsNotFound L e)
          \<or> (\<exists>read written stored. ev = [read, EUpdate written (Inr stored)])
      | Some e \<Rightarrow> \<exists>read written. ev = [read, EUpdate written (Inl e)] \<and> \<not> IsConflict L e)"

lemma GetObj_emits:
  "emits (GetObj E obj) (\<lambda>r ev. \<exists>e. ev = [e] \<and> version_read obj e = Some (map_sum id (\<lambda>o'. ResourceVersion (objMeta o')) r)
     \<and> (\<forall>err. r = Inl err \<longrightarrow> (\<exists>k. e = EGetLB k (Inl err) \<or> e = EGetSvc k (Inl err))))"
  by (cases obj) (auto simp: GetLB_def GetSvc_def map_sum_def split: sum.splits intro!: emits_bind emits_call emits_return)

lemma updateResource_attempt_contract:
  "emits (updateResource_attempt E (SetResourceVersion obj v)) (\<lambda>r ev. object_write obj ev \<and> length ev \<le> 2
     \<and> (if snd (fst r) \<noteq> None \<or> fst (fst r) then object_done (lib E) (snd (fst r)) ev else same_object obj (snd r)))"
  unfolding updateResource_attempt_def
proof (rule emits_bind_weaken [OF GetObj_emits])
  fix r ev
  assume "\<exists>e. ev = [e] \<and> version_read (SetResourceVersion obj v) e = Some (map_sum id (\<lambda>o'. ResourceVersion (objMeta o')) r)
     \<and> (\<forall>err. r = Inl err \<longrightarrow> (\<exists>k. e = EGetLB k (Inl err) \<or> e = EGetSvc k (Inl err)))"
  then obtain e where "ev = [e]" "version_read obj e = Some (map_sum id (\<lambda>o'. ResourceVersion (objMeta o')) r)"
    "\<forall>err. r = Inl err \<longrightarrow> (\<exists>k. e = EGetLB k (Inl err) \<or> e = EGetSvc k (Inl err))" by auto
  then show "emits (case r of
       Inl e \<Rightarrow> if IsNotFound (lib E) e then ret ((True, None), SetResourceVersion obj v)
          else ret ((False, None), SetResourceVersion obj v)
     | Inr cur \<Rightarrow>
         (let obj' = SetResourceVersion (SetResourceVersion obj v) (ResourceVersion (objMeta cur)) in do {
            upd \<leftarrow> Update E obj';
            case upd of
              Inl e \<Rightarrow> if IsConflict (lib E) e then ret ((False, None), obj')
                       else ret ((False, Some e), obj')
            | Inr stored \<Rightarrow> ret ((True, None), stored)
          })) (\<lambda>r e2. object_write obj (ev @ e2) \<and> length (ev @ e2) \<le> 2
     \<and> (if snd (fst r) \<noteq> None \<or> fst (fst r) then object_done (lib E) (snd (fst r)) (ev @ e2) else same_object obj (snd r)))"
    by (cases r) (auto simp: Update_def object_done_def Let_def
       intro!: emits_bind emits_call emits_return split: sum.split)
qed

interpretation object_update: retried "object_write obj" "updateResource_attempt E" "same_object obj"
    "object_done (lib E)" 2 for E obj
proof unfold_locales
  fix obj' assume "same_object obj obj'"
  then obtain v where "obj' = SetResourceVersion obj v" by (auto simp: same_object_def)
  then show "emits (updateResource_attempt E obj') (\<lambda>r ev. object_write obj ev \<and> length ev \<le> 2
      \<and> (if snd (fst r) \<noteq> None \<or> fst (fst r) then object_done (lib E) (snd (fst r)) ev
          else same_object obj (snd r)))"
    using updateResource_attempt_contract by simp
qed

lemma updateResourceWithRetry_emits:
  assumes "backoff_spec (lib E)"
  shows "emits (updateResourceWithRetry E obj) (\<lambda>err ev. object_write obj ev
     \<and> (err = Some ErrWaitTimeout \<or> (\<exists>ev2. suffix ev2 ev \<and> object_done (lib E) err ev2)))"
  unfolding updateResourceWithRetry_def ExponentialBackoff_eq [OF assms]
  by (rule emits_bind, rule emits_weaken [OF object_update.retry_steps_outcome [of obj obj]])
    (metis SetResourceVersion_same same_objectI, auto intro!: emits_return)

text \<open>
  C18: \<open>updateResourceWithRetry\<close> makes at most ten calls; every write sends the caller's object,
  changed in nothing but its resource version, which is the one just read (so changes made by
  others since the caller read the object are overwritten); its result is that of the attempt that
  ended the loop, or a timeout.
\<close>

theorem updateResourceWithRetry_writes_object:
  assumes "backoff_spec (lib E)" and "run_state (updateResourceWithRetry E obj) h = (err, h')"
  shows "\<exists>ev. h' = h @ ev \<and> object_write obj ev \<and> length ev \<le> 10
    \<and> (err = Some ErrWaitTimeout \<or> (\<exists>ev2. suffix ev2 ev \<and> object_done (lib E) err ev2))"
proof -
  obtain obj' where
    r: "run_state (ExponentialBackoff (lib E) RetryBackoff (updateResource_attempt E) obj) h = ((err, obj'), h')"
    using assms(2) by (auto simp: updateResourceWithRetry_def split: prod.splits)
  have "same_object obj obj" by (metis SetResourceVersion_same same_objectI)
  from object_update.backoff_outcome [OF assms(1) this r] show ?thesis
    by (simp add: Steps_RetryBackoff)
qed

theorem updateResourceWithRetry_writes_object_witness:
  "\<exists>err h'. run_state (updateResourceWithRetry sample_env (SvcObj sample_svc)) [] = (err, h')
    \<and> (\<exists>ev. h' = [] @ ev \<and> object_write (SvcObj sample_svc) ev \<and> length ev \<le> 10
       \<and> (err = Some ErrWaitTimeout \<or> (\<exists>ev2. suffix ev2 ev \<and> object_done (lib sample_env) err ev2)))"
  using updateResourceWithRetry_writes_object [of sample_env "SvcObj sample_svc" "[]"]
  by (metis ref_library_backoff sample_env_lib surj_pair)

lemma updateResource_sample:
  assumes "backoff_spec (lib E)" and "\<And>h k. \<exists>s. k8s_GetSvc (k8s E) h k = Inr s"
    and "\<And>h k. \<exists>l. k8s_GetLB (k8s E) h k = Inr l" and "\<And>h obj. k8s_Update (k8s E) h obj = Inr obj"
  shows "\<exists>ev. run_state (updateResourceWithRetry E obj) h = (None, h @ ev)"
proof (cases obj)
  case (LBObj lb)
  obtain cur where "k8s_GetLB (k8s E) h (lbKey lb) = Inr cur" using assms(3) by blast
  with LBObj assms(1,4) show ?thesis
    by (simp add: updateResourceWithRetry_def backoff_first updateResource_attempt_def call_defs Let_def)
next
  case (SvcObj svc)
  obtain cur where "k8s_GetSvc (k8s E) h (svcKey svc) = Inr cur" using assms(2) by blast
  with SvcObj assms(1,4) show ?thesis
    by (simp add: updateResourceWithRetry_def backoff_first updateResource_attempt_def call_defs Let_def)
qed

section \<open>Changes of the finalizers\<close>

text \<open>
  The object with another list of finalizers; traces that end with the accepted write of an object, or
  with the answer that it does not exist any more.
\<close>

fun with_finalizers :: "Object \<Rightarrow> string list \<Rightarrow> Object" where
  "with_finalizers (LBObj lb) fs = LBObj (lb\<lparr>lbMeta := (lbMeta lb)\<lparr>Finalizers := fs\<rparr>\<rparr>)"
| "with_finalizers (SvcObj svc) fs = SvcObj (svc\<lparr>svcMeta := (svcMeta svc)\<lparr>Finalizers := fs\<rparr>\<rparr>)"

definition stored_last :: "Object \<Rightarrow> event list \<Rightarrow> bool" where
  "stored_last obj ev \<longleftrightarrow>
     (\<exists>ev0 read v stored. ev = ev0 @ [read, EUpdate (SetResourceVersion obj v) (Inr stored)]
        \<and> version_read obj read = Some (Inr v))"

definition gone_last :: "library \<Rightarrow> Object \<Rightarrow> event list \<Rightarrow> bool" where
  "gone_last L obj ev \<longleftrightarrow>
     (\<exists>ev0 read e. ev = ev0 @ [read] \<and> version_read obj read = Some (Inl e) \<and> IsNotFound L e)"

text \<open>
  A successful change of the finalizers to the set \<open>F\<close>: all writes send the object with these
  finalizers, and in the end one was accepted or the object is gone.
\<close>

definition finalizers_written :: "library \<Rightarrow> Object \<Rightarrow> string set \<Rightarrow> event list \<Rightarrow> bool" where
  "finalizers_written L obj F ev \<longleftrightarrow>
     (\<exists>fs. set fs = F \<and> object_write (with_finalizers obj fs) ev
        \<and> (stored_last (with_finalizers obj fs) ev \<or> gone_last L obj ev))"

lemma version_read_with_finalizers [simp]: "version_read (with_finalizers obj fs) e = version_read obj e"
  by (cases obj; cases e) (simp_all add: svcKey_def lbKey_def)

lemma object_write_last_update:
  "object_write obj (ev @ [read, EUpdate written r]) \<Longrightarrow>
     \<exists>v. version_read obj read = Some (Inr v) \<and> written = SetResourceVersion obj v"
proof (induction ev rule: length_induct)
  case (1 ev)
  show ?case
  proof (cases ev)
    case Nil
    with "1.prems" show ?thesis by (cases obj) (auto split: option.splits sum.splits)
  next
    case (Cons e es)
    with "1.prems" consider "object_write obj (es @ [read, EUpdate written r])"
      | e' es' where "es = e' # es'" "object_write obj (es' @ [read, EUpdate written r])"
      | "es = []" "object_write obj [EUpdate written r]"
      by (cases es) (auto split: option.splits sum.splits event.splits)
    then show ?thesis
    proof cases
      case 1
      with "1.IH" [rule_format, of es] Cons show ?thesis by simp
    next
      case 2
      with "1.IH" [rule_format, of "es'"] Cons show ?thesis by (simp add: less_Suc_eq)
    next
      case 3
      then show ?thesis by (cases obj) simp_all
    qed
  qed
qed

lemma object_write_last_read:
  "object_write obj (ev @ [e]) \<Longrightarrow> (\<forall>written r. e \<noteq> EUpdate written r) \<Longrightarrow> version_read obj e \<noteq> None"
proof (induction ev rule: length_induct)
  case (1 ev)
  show ?case
  proof (cases ev)
    case Nil
    with "1.prems" show ?thesis by (auto split: option.splits)
  next
    case (Cons e0 es)
    with "1.prems" consider "object_write obj (es @ [e])" | e' es' where "es = e' # es'" "object_write obj (es' @ [e])"
      by (cases es) (auto split: option.splits sum.splits event.splits)
    then show ?thesis
    proof cases
      case 1
      with "1.IH" [rule_format, of es] "1.prems"(2) Cons show ?thesis by simp
    next
      case 2
      with "1.IH" [rule_format, of "es'"] "1.prems"(2) Cons show ?thesis by (simp add: less_Suc_eq)
    qed
  qed
qed

lemma object_write_outcome:
  assumes w: "object_write obj ev" and s: "suffix ev2 ev" and d: "object_done L None ev2"
  shows "stored_last obj ev \<or> gone_last L obj ev"
proof -
  from s obtain ev0 where ev: "ev = ev0 @ ev2" by (auto elim: suffixE)
  from d consider (gone) e k where "ev2 = [EGetLB k (Inl e)] \<or> ev2 = [EGetSvc k (Inl e)]" "IsNotFound L e"
    | (stored) read written stored where "ev2 = [read, EUpdate written (Inr stored)]"
    unfolding object_done_def by auto
  then show ?thesis
  proof cases
    case gone
    then obtain read where r: "ev2 = [read]" "read = EGetLB k (Inl e) \<or> read = EGetSvc k (Inl e)" by blast
    then have "version_read obj read \<noteq> None" using w ev by (intro object_write_last_read [of obj ev0]) auto
    then have "version_read obj read = Some (Inl e)"
      using r(2) by (cases obj) (auto split: if_splits)
    with ev r(1) gone(2) show ?thesis unfolding gone_last_def by blast
  next
    case stored
    with w ev object_write_last_update [of obj ev0] show ?thesis by (fastforce simp: stored_last_def)
  qed
qed

lemma updateResource_finalizers:
  assumes "backoff_spec (lib E)"
  shows "emits (updateResourceWithRetry E (with_finalizers obj fs)) (\<lambda>err ev. object_write (with_finalizers obj fs) ev
    \<and> (err = None \<longrightarrow> finalizers_written (lib E) obj (set fs) ev))"
proof (rule emits_weaken [OF updateResourceWithRetry_emits [OF assms]])
  fix err ev
  assume *: "object_write (with_finalizers obj fs) ev
     \<and> (err = Some ErrWaitTimeout \<or> (\<exists>ev2. suffix ev2 ev \<and> object_done (lib E) err ev2))"
  have "finalizers_written (lib E) obj (set fs) ev" if "err = None"
    using * that object_write_outcome unfolding finalizers_written_def gone_last_def
    by (metis option.distinct(1) version_read_with_finalizers)
  with * show "object_write (with_finalizers obj fs) ev
    \<and> (err = None \<longrightarrow> finalizers_written (lib E) obj (set fs) ev)" by simp
qed

section \<open>Forced removal of finalizers\<close>

lemma conflict_steps_patches:
  "emits (conflict_steps conflict n (PatchSvc E svc p)) (\<lambda>err ev. \<exists>es. ev = map (\<lambda>e. EPatchSvc svc p (Some e)) es @ [EPatchSvc svc p err]
     \<and> list_all conflict es \<and> length es \<le> n)"
proof (induction n)
  case 0
  show ?case by (auto simp: PatchSvc_def intro!: emits_call)
next
  case (Suc n)
  have p: "emits (PatchSvc E svc p) (\<lambda>r ev. ev = [EPatchSvc svc p r])" by (simp add: PatchSvc_def emits_call)
  show ?case unfolding conflict_steps.simps
    apply (rule emits_bind_weaken [OF p])
    subgoal for r e1
      apply (cases r)
       apply (auto intro!: emits_return)[1]
      apply (auto intro!: emits_return emits_weaken [OF Suc.IH])
      subgoal for e es by (intro exI [of _ "e # es"]) auto
      done
    done
qed

text \<open>
  C33: \<open>forceFinalizerRemoval\<close> does nothing for a service that is not terminating. For a terminating
  one it sends the patch that sets all finalizers to null, again as long as the answer is a conflict
  and at most as often as the default retry allows, and returns the last answer.
\<close>

theorem forceFinalizerRemoval_patches:
  assumes "conflict_spec (lib E)"
  shows "case run_state (forceFinalizerRemoval E svc) h of (err, h') \<Rightarrow>
    if svcTerminating svc
    then \<exists>es. h' = h @ map (\<lambda>e. EPatchSvc svc finalizersNullPatch (Some e)) es
                  @ [EPatchSvc svc finalizersNullPatch err]
           \<and> list_all (IsConflict (lib E)) es \<and> length es < Steps (DefaultRetry (lib E))
    else err = None \<and> h' = h"
proof (cases "svcTerminating svc")
  case True
  have "0 < Steps (DefaultRetry (lib E))" using assms by (simp add: conflict_spec_def)
  moreover obtain err h' where r: "run_state (forceFinalizerRemoval E svc) h = (err, h')"
    by (metis prod.collapse)
  moreover obtain ev es where "h' = h @ ev"
    and "ev = map (\<lambda>e. EPatchSvc svc finalizersNullPatch (Some e)) es @ [EPatchSvc svc finalizersNullPatch err]"
    and "list_all (IsConflict (lib E)) es" and "length es \<le> Steps (DefaultRetry (lib E)) - 1"
    using emitsD [OF conflict_steps_patches] r True
    by (simp add: forceFinalizerRemoval_def RetryOnConflict_eq [OF assms]) metis
  ultimately show ?thesis using True by (auto intro!: exI [of _ es])
qed (simp add: forceFinalizerRemoval_def)

theorem forceFinalizerRemoval_patches_witness:
  "case run_state (forceFinalizerRemoval sample_env sample_dying) [] of (err, h') \<Rightarrow>
    if svcTerminating sample_dying
    then \<exists>es. h' = [] @ map (\<lambda>e. EPatchSvc sample_dying finalizersNullPatch (Some e)) es
                  @ [EPatchSvc sample_dying finalizersNullPatch err]
           \<and> list_all (IsConflict (lib sample_env)) es \<and> length es < Steps (DefaultRetry (lib sample_env))
    else err = None \<and> h' = []"
  by (rule forceFinalizerRemoval_patches) (simp add: retry_spec_conflict)

end
