(* ===== verification/Resource_Cleanup.thy ===== *)
theory Resource_Cleanup
  imports Controller_Utils
begin

text \<open>
  \<open>src/internal/controller/resource_cleanup.go\<close>, and \<open>HandleServiceFinalizationWithForce\<close> of
  utils.go: which floating IPs and ports belong to a service, their deletion, and the removal of the
  service's finalizer afterwards.

  A \<open>ResourceCleanupHandler\<close> is its two clients: the environment and an OpenStack \<open>Client\<close>.
\<close>

section \<open>Selecting the resources of a service\<close>

definition serviceIdentifier :: "Service \<Rightarrow> string" where
  "serviceIdentifier svc = svcNamespace svc @ ''/'' @ svcName svc"

definition portNameFor :: "Service \<Rightarrow> string" where
  "portNameFor svc = ''k8s-lb-'' @ svcNamespace svc @ ''-'' @ svcName svc"

definition shouldDeleteFloatingIP :: "Service \<Rightarrow> string \<Rightarrow> string \<Rightarrow> FloatingIP \<Rightarrow> bool" where
  "shouldDeleteFloatingIP svc portID floatingIPID fip =
     (FIP_ID fip = floatingIPID
      \<or> (portID \<noteq> [] \<and> FIP_PortID fip = portID)
      \<or> strings_Contains (FIP_Description fip) (serviceIdentifier svc)
      \<or> (strings_Contains (FIP_Description fip) ''by OpenStack LB Operator''
          \<and> strings_Contains (FIP_Description fip) (svcName svc)))"

fun identifyFloatingIPsToDelete ::
  "FloatingIP list \<Rightarrow> Service \<Rightarrow> string \<Rightarrow> string \<Rightarrow> FloatingIP list" where
  "identifyFloatingIPsToDelete [] svc portID floatingIPID = []"
| "identifyFloatingIPsToDelete (fip # fips) svc portID floatingIPID =
     (if shouldDeleteFloatingIP svc portID floatingIPID fip
      then fip # identifyFloatingIPsToDelete fips svc portID floatingIPID
      else identifyFloatingIPsToDelete fips svc portID floatingIPID)"

definition shouldDeletePort :: "Service \<Rightarrow> string \<Rightarrow> Port \<Rightarrow> bool" where
  "shouldDeletePort svc portID port =
     (Port_ID port = portID
      \<or> Port_Name port = portNameFor svc
      \<or> strings_Contains (Port_Description port) (serviceIdentifier svc)
      \<or> (strings_Contains (Port_Description port) ''by OpenStack LB Operator''
          \<and> strings_Contains (Port_Description port) (svcName svc)))"

fun identifyPortsToDelete :: "Port list \<Rightarrow> Service \<Rightarrow> string \<Rightarrow> Port list" where
  "identifyPortsToDelete [] svc portID = []"
| "identifyPortsToDelete (port # ports) svc portID =
     (if shouldDeletePort svc portID port
      then port # identifyPortsToDelete ports svc portID
      else identifyPortsToDelete ports svc portID)"

section \<open>Cleaning up\<close>

text \<open>
  The two deletion loops. Their variables are \<open>needsRequeue\<close> and whether the annotation of the
  resource is in \<open>annotationsToUpdate\<close>.
\<close>

definition deleteFloatingIPs_loop ::
  "Client \<Rightarrow> string \<Rightarrow> bool \<times> bool \<Rightarrow> FloatingIP list \<Rightarrow> (bool \<times> bool) io" where
  "deleteFloatingIPs_loop cl floatingIPID st fips =
     foldM (\<lambda>(needsRequeue, clearAnnotation) fip. do {
       err \<leftarrow> Client_DeleteFloatingIP cl (FIP_ID fip);
       case err of
         Some e \<Rightarrow> ret (True, clearAnnotation)
       | None \<Rightarrow> ret (needsRequeue, if FIP_ID fip = floatingIPID then True else clearAnnotation)
     }) st fips"

definition deletePorts_loop ::
  "Client \<Rightarrow> string \<Rightarrow> bool \<times> bool \<Rightarrow> Port list \<Rightarrow> (bool \<times> bool) io" where
  "deletePorts_loop cl portID st ports =
     foldM (\<lambda>(needsRequeue, clearAnnotation) port. do {
       err \<leftarrow> Client_DeletePort cl (Port_ID port);
       case err of
         Some e \<Rightarrow> ret (True, clearAnnotation)
       | None \<Rightarrow> ret (needsRequeue, if Port_ID port = portID then True else clearAnnotation)
     }) st ports"

definition annotationsToUpdate :: "bool \<Rightarrow> bool \<Rightarrow> (string \<times> string) list" where
  "annotationsToUpdate clearFIP clearPort =
     (if clearFIP then [(AnnotationFloatingIPID, [])] else [])
     @ (if clearPort then [(AnnotationPortID, [])] else [])"

definition CleanupResourcesForService ::
  "env \<Rightarrow> Client \<Rightarrow> Service \<Rightarrow> (bool \<times> error option) io" where
  "CleanupResourcesForService E cl svc = do {
     fips \<leftarrow> Client_GetAllFloatingIPs cl;
     case fips of
       Inl e \<Rightarrow> ret (True, Some e)
     | Inr allFloatingIPs \<Rightarrow> do {
         ports \<leftarrow> Client_GetAllPorts cl;
         case ports of
           Inl e \<Rightarrow> ret (True, Some e)
         | Inr allPorts \<Rightarrow>
             (let (portID, floatingIPID) = extractResourceIDsFromAnnotations svc;
                  floatingIPsToDelete = identifyFloatingIPsToDelete allFloatingIPs svc portID floatingIPID
              in do {
                (needsRequeue1, clearFIP) \<leftarrow>
                  deleteFloatingIPs_loop cl floatingIPID (False, False) floatingIPsToDelete;
                (needsRequeue2, clearPort) \<leftarrow>
                  deletePorts_loop cl portID (needsRequeue1, False)
                    (identifyPortsToDelete allPorts svc portID);
                needsRequeue3 \<leftarrow>
                  (if annotationsToUpdate clearFIP clearPort \<noteq> [] then do {
                     err \<leftarrow> updateMultipleServiceAnnotations E svc (annotationsToUpdate clearFIP clearPort);
                     ret (if err \<noteq> None then True else needsRequeue2)
                   } else ret needsRequeue2);
                if needsRequeue3 then ret (True, None)
                else if hasAnnotation svc AnnotationPortID \<or> hasAnnotation svc AnnotationFloatingIPID
                then ret (True, None)
                else ret (False, None)
              })
       }
   }"

definition CleanupResourcesForServiceWithForce ::
  "env \<Rightarrow> Client \<Rightarrow> Service \<Rightarrow> (bool \<times> error option) io" where
  "CleanupResourcesForServiceWithForce E cl svc = do {
     _ \<leftarrow> Client_GetAllFloatingIPs cl;
     _ \<leftarrow> Client_GetAllPorts cl;
     let (portID, floatingIPID) = extractResourceIDsFromAnnotations svc;
     _ \<leftarrow> (if floatingIPID \<noteq> [] then Client_DeleteFloatingIP cl floatingIPID else ret None);
     _ \<leftarrow> (if portID \<noteq> [] then Client_DeletePort cl portID else ret None);
     if \<not> IsZero (DeletionTimestamp (svcMeta svc)) then ret (False, None)
     else do {
       err \<leftarrow> updateMultipleServiceAnnotations E svc [(AnnotationPortID, []), (AnnotationFloatingIPID, [])];
       if err \<noteq> None then ret (True, None) else ret (False, None)
     }
   }"

section \<open>Finalizing a service\<close>

definition removeServiceFinalizer :: "env \<Rightarrow> Service \<Rightarrow> Service" where
  "removeServiceFinalizer E svc =
     svcSetFinalizers svc (RemoveFinalizer (lib E) (svcFinalizers svc) ServiceFinalizer)"

definition HandleServiceFinalization ::
  "env \<Rightarrow> Client \<Rightarrow> Service \<Rightarrow> (bool \<times> error option) io" where
  "HandleServiceFinalization E cl svc =
     (if \<not> ContainsFinalizer (lib E) (svcFinalizers svc) ServiceFinalizer then ret (False, None)
      else do {
        (needsRequeue, err) \<leftarrow> CleanupResourcesForService E cl svc;
        if err \<noteq> None then ret (True, err)
        else if needsRequeue then ret (True, None)
        else do {
          updateErr \<leftarrow> updateResourceWithRetry E (SvcObj (removeServiceFinalizer E svc));
          if updateErr \<noteq> None then ret (True, updateErr) else ret (False, None)
        }
      })"

definition HandleServiceFinalizationWithForce ::
  "env \<Rightarrow> Client \<Rightarrow> Service \<Rightarrow> (bool \<times> error option) io" where
  "HandleServiceFinalizationWithForce E cl svc =
     (if \<not> ContainsFinalizer (lib E) (svcFinalizers svc) ServiceFinalizer then ret (False, None)
      else do {
        (needsRequeue, err) \<leftarrow> CleanupResourcesForService E cl svc;
        if err \<noteq> None then
          if shouldForceCleanup E svc then do {
            forceErr \<leftarrow> forceFinalizerRemoval E svc;
            if forceErr \<noteq> None then ret (True, forceErr) else ret (False, None)
          }
          else ret (True, err)
        else if needsRequeue then
          if shouldForceCleanup E svc then do {
            forceErr \<leftarrow> forceFinalizerRemoval E svc;
            if forceErr \<noteq> None then ret (True, forceErr) else ret (False, None)
          }
          else ret (True, None)
        else do {
          updateErr \<leftarrow> updateResourceWithRetry E (SvcObj (removeServiceFinalizer E svc));
          case updateErr of
            None \<Rightarrow> ret (False, None)
          | Some e \<Rightarrow>
              if strings_Contains (Error e) ''conflict'' \<or> \<not> IsZero (DeletionTimestamp (svcMeta svc))
              then do {
                forceErr \<leftarrow> forceFinalizerRemoval E svc;
                if forceErr \<noteq> None then ret (True, forceErr) else ret (False, None)
              }
              else ret (True, Some e)
        }
      })"

section \<open>Audited traces\<close>

context audited_client begin

lemma safe_CleanupResourcesForService:
  assumes "retry_spec (lib E)"
  shows "emits (CleanupResourcesForService E cl svc) (\<lambda>_. P)"
  unfolding CleanupResourcesForService_def deleteFloatingIPs_loop_def deletePorts_loop_def
  by (intro safe_intros safe_client safe_utils retry_spec_backoff assms)

lemma safe_CleanupResourcesForServiceWithForce:
  assumes "retry_spec (lib E)"
  shows "emits (CleanupResourcesForServiceWithForce E cl svc) (\<lambda>_. P)"
  unfolding CleanupResourcesForServiceWithForce_def
  by (intro safe_intros safe_client safe_utils retry_spec_backoff assms)

lemma safe_HandleServiceFinalization:
  assumes "retry_spec (lib E)"
  shows "emits (HandleServiceFinalization E cl svc) (\<lambda>_. P)"
  unfolding HandleServiceFinalization_def
  by (intro safe_intros safe_CleanupResourcesForService safe_utils retry_spec_backoff assms)

lemma safe_HandleServiceFinalizationWithForce:
  assumes "retry_spec (lib E)"
  shows "emits (HandleServiceFinalizationWithForce E cl svc) (\<lambda>_. P)"
  unfolding HandleServiceFinalizationWithForce_def
  by (intro safe_intros safe_CleanupResourcesForService safe_utils retry_spec_backoff
      retry_spec_conflict assms)

end

section \<open>What a cleanup does\<close>

fun is_fip_delete :: "event \<Rightarrow> bool" where
  "is_fip_delete (EFipDelete c i r) = True"
| "is_fip_delete _ = False"

fun is_port_delete :: "event \<Rightarrow> bool" where
  "is_port_delete (EPortDelete c i r) = True"
| "is_port_delete _ = False"

interpretation no_fip_delete: audited "list_all (\<lambda>e. \<not> is_fip_delete e)"
  by unfold_locales (auto elim: neutral.elims)

interpretation no_port_delete: audited "list_all (\<lambda>e. \<not> is_port_delete e)"
  by unfold_locales (auto elim: neutral.elims)

lemma identifyFloatingIPsToDelete_filter:
  "identifyFloatingIPsToDelete fips svc portID floatingIPID = filter (shouldDeleteFloatingIP svc portID floatingIPID) fips"
  by (induction fips) auto

lemma identifyPortsToDelete_filter:
  "identifyPortsToDelete ports svc portID = filter (shouldDeletePort svc portID) ports"
  by (induction ports) auto

lemma DeletePort_no_fip: "emits (DeletePort E c i) (\<lambda>_. list_all (\<lambda>e. \<not> is_fip_delete e))"
  unfolding DeletePort_def deleteResource_def PortDelete_def
  by (intro list_all_prop.safe_intros no_fip_delete.safe_calls no_fip_delete.safe_checkPortExists list_all_prop.safe_call) simp

lemma DeleteFloatingIP_no_port: "emits (DeleteFloatingIP E c i) (\<lambda>_. list_all (\<lambda>e. \<not> is_port_delete e))"
  unfolding DeleteFloatingIP_def deleteResource_def FipDelete_def
  by (intro list_all_prop.safe_intros no_port_delete.safe_calls no_port_delete.safe_checkFloatingIPExists list_all_prop.safe_call) simp

lemma deletion_loop_emits:
  assumes del: "\<And>x. emits (del x) (\<lambda>err ev. A ev \<and> (err = None \<longrightarrow> (\<exists>e \<in> set ev. gone x e)))"
    and A: "A []" "\<And>xs ys. A xs \<Longrightarrow> A ys \<Longrightarrow> A (xs @ ys)"
  shows "emits (foldM (\<lambda>(rq, clear) x. do {
       err \<leftarrow> del x;
       case err of Some e \<Rightarrow> ret (True, clear) | None \<Rightarrow> ret (rq, if g x then True else clear)
     }) st xs)
     (\<lambda>st' ev. A ev \<and> (\<not> fst st' \<longrightarrow> \<not> fst st \<and> (\<forall>x \<in> set xs. \<exists>e \<in> set ev. gone x e)))"
proof (induction xs arbitrary: st)
  case Nil
  show ?case by (auto intro: emits_return A)
next
  case (Cons x xs)
  obtain rq clear where st: "st = (rq, clear)" by (cases st)
  show ?case
    unfolding foldM.simps st prod.case State_Monad.bind_assoc
  proof (rule emits_bind_weaken [OF del [of x]])
    fix err e1
    assume e1: "A e1 \<and> (err = None \<longrightarrow> (\<exists>e \<in> set e1. gone x e))"
    then show "emits ((case err of Some e \<Rightarrow> ret (True, clear) | None \<Rightarrow> ret (rq, if g x then True else clear)) \<bind>
       (\<lambda>acc'. foldM (\<lambda>(rq, clear) x. do {
       err \<leftarrow> del x;
       case err of Some e \<Rightarrow> ret (True, clear) | None \<Rightarrow> ret (rq, if g x then True else clear)
     }) acc' xs)) (\<lambda>st' e2. A (e1 @ e2) \<and> (\<not> fst st' \<longrightarrow> \<not> fst (rq, clear) \<and> (\<forall>y \<in> set (x # xs). \<exists>e \<in> set (e1 @ e2). gone y e)))"
      by (cases err) (auto intro!: emits_weaken [OF Cons.IH] A(2))
  qed
qed

lemma deleteFloatingIPs_loop_emits:
  "emits (deleteFloatingIPs_loop (ClientImpl E c) fid st fips)
     (\<lambda>st' ev. list_all (\<lambda>e. \<not> is_port_delete e) ev
        \<and> (\<not> fst st' \<longrightarrow> \<not> fst st \<and> (\<forall>f \<in> set fips. \<exists>e \<in> set ev. fip_gone c (FIP_ID f) e)))"
  unfolding deleteFloatingIPs_loop_def
  by (rule deletion_loop_emits)
   (auto simp: ClientImpl_def intro!: emits_weaken [OF emits_conj [OF DeleteFloatingIP_no_port DeleteFloatingIP_emits]])

lemma deletePorts_loop_emits:
  "emits (deletePorts_loop (ClientImpl E c) pid st ports)
     (\<lambda>st' ev. list_all (\<lambda>e. \<not> is_fip_delete e) ev
        \<and> (\<not> fst st' \<longrightarrow> \<not> fst st \<and> (\<forall>p \<in> set ports. \<exists>e \<in> set ev. port_gone c (Port_ID p) e)))"
  unfolding deletePorts_loop_def
  by (rule deletion_loop_emits)
   (auto simp: ClientImpl_def intro!: emits_weaken [OF emits_conj [OF DeletePort_no_fip DeletePort_emits]])

text \<open>
  A cleanup is complete when both listings succeeded and every listed resource that is selected for
  the service was reported gone.
\<close>

definition cleanup_complete :: "env \<Rightarrow> ServiceClient \<Rightarrow> Service \<Rightarrow> event list \<Rightarrow> bool" where
  "cleanup_complete E c svc ev \<longleftrightarrow>
     (\<exists>fpages ppages fips ports.
        EFipList c [] (Inr fpages) \<in> set ev \<and> fip_Extract (gopher E) fpages = Inr fips
        \<and> EPortList c (Inr ppages) \<in> set ev \<and> port_Extract (gopher E) ppages = Inr ports
        \<and> (\<forall>f \<in> set fips. case extractResourceIDsFromAnnotations svc of (portID, floatingIPID) \<Rightarrow>
             shouldDeleteFloatingIP svc portID floatingIPID f \<longrightarrow> (\<exists>e \<in> set ev. fip_gone c (FIP_ID f) e))
        \<and> (\<forall>p \<in> set ports. shouldDeletePort svc (fst (extractResourceIDsFromAnnotations svc)) p \<longrightarrow>
             (\<exists>e \<in> set ev. port_gone c (Port_ID p) e)))"

text \<open>The port ID or floating IP ID annotation of a service is set.\<close>

definition annotated :: "Service \<Rightarrow> bool" where
  "annotated svc \<longleftrightarrow> hasAnnotation svc AnnotationPortID \<or> hasAnnotation svc AnnotationFloatingIPID"

lemma GetAllFloatingIPs_emits:
  "emits (GetAllFloatingIPs E c) (\<lambda>r ev. list_all neutral ev \<and> (\<forall>fips. r = Inr fips \<longrightarrow>
     (\<exists>pages. ev = [EFipList c [] (Inr pages)] \<and> fip_Extract (gopher E) pages = Inr fips)))"
  unfolding GetAllFloatingIPs_def FipList_def
  by (auto intro!: emits_bind emits_call emits_return split: sum.split)

lemma GetAllPorts_emits:
  "emits (GetAllPorts E c) (\<lambda>r ev. list_all neutral ev \<and> (\<forall>ports. r = Inr ports \<longrightarrow>
     (\<exists>pages. ev = [EPortList c (Inr pages)] \<and> port_Extract (gopher E) pages = Inr ports)))"
  unfolding GetAllPorts_def PortList_def
  by (auto intro!: emits_bind emits_call emits_return split: sum.split)

text \<open>No port is deleted before the last floating IP.\<close>

definition fips_before_ports :: "event list \<Rightarrow> bool" where
  "fips_before_ports ev \<longleftrightarrow> (\<exists>ev1 ev2. ev = ev1 @ ev2
     \<and> list_all (\<lambda>e. \<not> is_port_delete e) ev1 \<and> list_all (\<lambda>e. \<not> is_fip_delete e) ev2)"

definition cleanup_post :: "env \<Rightarrow> ServiceClient \<Rightarrow> Service \<Rightarrow> bool \<times> error option \<Rightarrow> event list \<Rightarrow> bool" where
  "cleanup_post E c svc r ev \<longleftrightarrow>
     fips_before_ports ev
     \<and> (r = (False, None) \<longrightarrow> cleanup_complete E c svc ev)
     \<and> (annotated svc \<longrightarrow> fst r)"

lemma fips_before_ports_neutral: "list_all neutral ev \<Longrightarrow> fips_before_ports ev"
  unfolding fips_before_ports_def
  by (rule exI [of _ ev], rule exI [of _ "[]"]) (induction ev, auto elim: neutral.elims)

lemma cleanup_tail_emits:
  assumes "backoff_spec (lib E)"
    and "e1 = [EFipList c [] (Inr fpages)]" and "e2 = [EPortList c (Inr ppages)]"
    and "fip_Extract (gopher E) fpages = Inr fips" and "port_Extract (gopher E) ppages = Inr ports"
    and ids: "extractResourceIDsFromAnnotations svc = (portID, floatingIPID)"
  shows "emits (do {
                (needsRequeue1, clearFIP) \<leftarrow>
                  deleteFloatingIPs_loop (ClientImpl E c) floatingIPID (False, False)
                    (identifyFloatingIPsToDelete fips svc portID floatingIPID);
                (needsRequeue2, clearPort) \<leftarrow>
                  deletePorts_loop (ClientImpl E c) portID (needsRequeue1, False)
                    (identifyPortsToDelete ports svc portID);
                needsRequeue3 \<leftarrow>
                  (if annotationsToUpdate clearFIP clearPort \<noteq> [] then do {
                     err \<leftarrow> updateMultipleServiceAnnotations E svc (annotationsToUpdate clearFIP clearPort);
                     ret (if err \<noteq> None then True else needsRequeue2)
                   } else ret needsRequeue2);
                if needsRequeue3 then ret (True, None)
                else if hasAnnotation svc AnnotationPortID \<or> hasAnnotation svc AnnotationFloatingIPID
                then ret (True, None)
                else ret (False, None)
              }) (\<lambda>r e3. cleanup_post E c svc r (e1 @ e2 @ e3))"
  apply (rule emits_bind_weaken [OF deleteFloatingIPs_loop_emits])
  subgoal premises p for st1 f
    apply (cases st1, simp only: prod.case)
    apply (rule emits_bind_weaken [OF deletePorts_loop_emits])
    subgoal premises q for rq1 clear1 st2 g
      apply (cases st2, simp only: prod.case)
      apply (rule emits_bind_weaken [where ?Q1.0 = "\<lambda>rq3 u. list_all (\<lambda>e. \<not> is_fip_delete e) u \<and> (\<not> rq3 \<longrightarrow> \<not> fst st2)"])
      subgoal
        by (auto intro!: emits_return emits_bind emits_weaken [OF no_fip_delete.safe_updateMultipleServiceAnnotations [OF assms(1)]]
            split: if_splits)
      subgoal premises u for rq2 clear2 rq3 u
      proof -
        have "cleanup_complete E c svc (e1 @ e2 @ f @ g @ u)" if "\<not> rq3"
          unfolding cleanup_complete_def using p q u that assms(2-6)
          by (intro exI [of _ fpages] exI [of _ ppages] exI [of _ fips] exI [of _ ports])
            (auto simp: identifyFloatingIPsToDelete_filter identifyPortsToDelete_filter)
        moreover have "fips_before_ports (e1 @ e2 @ f @ g @ u)"
          unfolding fips_before_ports_def using p q u assms(2,3) by (intro exI [of _ "e1 @ e2 @ f"] exI [of _ "g @ u"]) auto
        ultimately show ?thesis
          by (auto simp: cleanup_post_def annotated_def intro!: emits_return)
      qed
      done
    done
  done

lemma cleanup_emits:
  assumes "backoff_spec (lib E)"
  shows "emits (CleanupResourcesForService E (ClientImpl E c) svc) (cleanup_post E c svc)"
proof -
  have fail: "cleanup_post E c svc (True, Some e) ev" if "list_all neutral ev" for e ev
    using fips_before_ports_neutral [OF that] by (simp add: cleanup_post_def)
  have cl: "Client_GetAllFloatingIPs (ClientImpl E c) = GetAllFloatingIPs E c"
     "Client_GetAllPorts (ClientImpl E c) = GetAllPorts E c" by (simp_all add: ClientImpl_def)
  show ?thesis
    unfolding CleanupResourcesForService_def cl
  apply (rule emits_bind_weaken [OF GetAllFloatingIPs_emits])
  subgoal for fips e1
    apply (cases fips; simp only: sum.case)
    subgoal by (rule emits_return, simp add: fail)
    apply (rule emits_bind_weaken [OF GetAllPorts_emits])
    subgoal for fips' ports e2
      apply (cases ports; simp only: sum.case)
      subgoal by (rule emits_return, simp add: fail)
      subgoal premises p for ports'
      proof -
        obtain pid fid where ids: "extractResourceIDsFromAnnotations svc = (pid, fid)" by fastforce
        from p obtain fpages ppages where "e1 = [EFipList c [] (Inr fpages)]" "e2 = [EPortList c (Inr ppages)]"
          "fip_Extract (gopher E) fpages = Inr fips'" "port_Extract (gopher E) ppages = Inr ports'"
          by auto
        from cleanup_tail_emits [OF assms this ids] show ?thesis
          by (simp only: ids Let_def prod.case append_assoc)
      qed
      done
    done
  done
qed

lemma cleanup_run:
  assumes "backoff_spec (lib E)" and "run_state (CleanupResourcesForService E (ClientImpl E c) svc) h = (r, h')"
  obtains ev where "h' = h @ ev" and "cleanup_post E c svc r ev"
  using emitsD [OF cleanup_emits [OF assms(1)] assms(2)] by blast

text \<open>
  C7: when \<open>CleanupResourcesForService\<close> reports that nothing is left to do, the floating IPs and
  the ports were listed, and each of those that are selected for the service was reported gone by
  OpenStack.
\<close>

theorem cleanup_deletes_all_selected:
  assumes "backoff_spec (lib E)"
    and "run_state (CleanupResourcesForService E (ClientImpl E c) svc) h = ((False, None), h')"
  shows "\<exists>ev. h' = h @ ev \<and> cleanup_complete E c svc ev"
  using cleanup_run [OF assms] by (auto simp: cleanup_post_def)

text \<open>The cleanup of any unannotated service with the name of the sample service.\<close>

definition like_sample :: "Service \<Rightarrow> bool" where
  "like_sample svc \<longleftrightarrow> svcName svc = ''web'' \<and> svcNamespace svc = ''default''
     \<and> extractResourceIDsFromAnnotations svc = ([], []) \<and> \<not> annotated svc"

lemma like_sample [simp]: "like_sample sample_svc" "like_sample sample_dying"
  by (simp_all add: like_sample_def extractResourceIDsFromAnnotations_def annotated_def hasAnnotation_def
      sample_dying_def sample_svc_def sample_meta_def)

lemma sample_selected:
  assumes "like_sample svc"
  shows "shouldDeletePort svc [] sample_port" "shouldDeleteFloatingIP svc [] [] sample_fip"
  using assms
  by (simp_all add: like_sample_def shouldDeletePort_def portNameFor_def shouldDeleteFloatingIP_def
      serviceIdentifier_def sample_port_def sample_fip_def)

lemma cleanup_sample:
  assumes g: "gopher E = sample_gopher" and svc: "like_sample svc"
  shows "run_state (CleanupResourcesForService E (ClientImpl E sample_net) svc) h
     = ((False, None), h @ cleanup_trace)"
proof -
  have f: "FIP_ID sample_fip = ''f1''" "Port_ID sample_port = ''p1''"
    by (simp_all add: sample_fip_def sample_port_def)
  have a: "extractResourceIDsFromAnnotations svc = ([], [])"
    "\<not> hasAnnotation svc AnnotationPortID" "\<not> hasAnnotation svc AnnotationFloatingIPID"
    using svc by (simp_all add: like_sample_def annotated_def)
  have r: "run_state (GetAllFloatingIPs E c) h = (Inr [sample_fip], h @ [EFipList c [] (Inr (Page ''fips''))])"
    "run_state (GetAllPorts E c) h = (Inr [sample_port], h @ [EPortList c (Inr (Page ''ports''))])" for c h
    by (simp_all add: g GetAllFloatingIPs_def GetAllPorts_def call_defs sample_gopher_def)
  show ?thesis
    by (simp add: CleanupResourcesForService_def ClientImpl_def r f a sample_selected [OF svc]
        deleteFloatingIPs_loop_def deletePorts_loop_def DeletePort_sample [OF g]
        DeleteFloatingIP_sample [OF g] annotationsToUpdate_def cleanup_trace_def)
qed

theorem cleanup_deletes_all_selected_witness:
  "\<exists>ev. cleanup_trace = [] @ ev \<and> cleanup_complete dying_env sample_net sample_dying ev"
  by (rule cleanup_deletes_all_selected) (simp_all add: cleanup_sample)

text \<open>
  C22: in every cleanup, whatever its outcome, no floating IP is deleted after the first attempt to
  delete a port.
\<close>

theorem cleanup_order:
  assumes "backoff_spec (lib E)"
    and "run_state (CleanupResourcesForService E (ClientImpl E c) svc) h = (r, h')"
  shows "\<exists>ev. h' = h @ ev \<and> fips_before_ports ev"
  using cleanup_run [OF assms] by (auto simp: cleanup_post_def)

theorem cleanup_order_witness:
  "\<exists>ev. cleanup_trace = [] @ ev \<and> fips_before_ports ev"
  by (rule cleanup_order [of dying_env sample_net sample_dying "[]" "(False, None)"])
    (simp_all add: cleanup_sample)

text \<open>
  The cleanup looks for leftover annotations in the service it was given, which its own update
  does not change: for a service that had a port or floating IP annotation it always asks to be
  called again, even when everything was deleted and the annotations were cleared.
\<close>

theorem annotated_cleanup_requeues:
  assumes "backoff_spec (lib E)" and "annotated svc"
  shows "fst (fst (run_state (CleanupResourcesForService E (ClientImpl E c) svc) h))"
  using cleanup_run [OF assms(1)] assms(2) by (metis cleanup_post_def prod.collapse)

definition annotated_dying :: Service where
  "annotated_dying = svcSetAnnotations sample_dying (Some [AnnotationPortID \<mapsto> ''p1''])"

lemma annotated_dying [simp]:
  "annotated annotated_dying" "svcTerminating annotated_dying"
  "svcFinalizers annotated_dying = [ServiceFinalizer]"
  by (simp_all add: annotated_def annotated_dying_def hasAnnotation_def svcSetAnnotations_def
      sample_dying_def IsZero_def ServiceFinalizer_def)

theorem annotated_cleanup_requeues_witness:
  "fst (fst (run_state (CleanupResourcesForService sample_env (ClientImpl sample_env sample_net) annotated_dying) []))"
  by (rule annotated_cleanup_requeues) simp_all

text \<open>
  \<open>CleanupResourcesForServiceWithForce\<close> never returns an error, and for a terminating service it
  never asks to be called again, whatever happened to the deletions.
\<close>

theorem cleanup_with_force_never_fails:
  "case fst (run_state (CleanupResourcesForServiceWithForce E cl svc) h) of
     (rq, err) \<Rightarrow> err = None \<and> \<not> (svcTerminating svc \<and> rq)"
  by (auto simp: CleanupResourcesForServiceWithForce_def split_beta Let_def)

section \<open>When the finalizer is given up\<close>

lemma forceFinalizerRemoval_emits:
  assumes "conflict_spec (lib E)" and "svcTerminating svc"
  shows "emits (forceFinalizerRemoval E svc) (\<lambda>err ev. \<exists>es.
     ev = map (\<lambda>e. EPatchSvc svc finalizersNullPatch (Some e)) es @ [EPatchSvc svc finalizersNullPatch err]
     \<and> list_all (IsConflict (lib E)) es \<and> length es \<le> Steps (DefaultRetry (lib E)) - 1)"
  using conflict_steps_patches assms(2)
  by (simp add: forceFinalizerRemoval_def RetryOnConflict_eq [OF assms(1)])

text \<open>
  C38: for a terminating service with the operator's finalizer and a port or floating IP annotation,
  \<open>HandleServiceFinalizationWithForce\<close> always ends by patching all finalizers away, whether or not
  the cleanup succeeded, and its result is that of the patch.
\<close>

theorem annotated_service_finalizer_forced:
  assumes "retry_spec (lib E)" and "svcTerminating svc"
    and "ContainsFinalizer (lib E) (svcFinalizers svc) ServiceFinalizer" and "annotated svc"
    and "run_state (HandleServiceFinalizationWithForce E (ClientImpl E c) svc) h = ((rq, err), h')"
  shows "rq = (err \<noteq> None) \<and> (\<exists>ev. h' = h @ ev \<and> last ev = EPatchSvc svc finalizersNullPatch err)"
proof -
  obtain rq0 err0 h0 where c: "run_state (CleanupResourcesForService E (ClientImpl E c) svc) h = ((rq0, err0), h0)"
    by (metis prod.collapse)
  obtain ev0 where ev0: "h0 = h @ ev0" "cleanup_post E c svc (rq0, err0) ev0"
    using cleanup_run [OF _ c] assms(1) by blast
  with assms(4) have "rq0" by (auto simp: cleanup_post_def annotated_def)
  moreover have sf: "shouldForceCleanup E svc"
    using assms by (simp add: shouldForceCleanup_def annotated_def)
  moreover obtain ferr hf where f: "run_state (forceFinalizerRemoval E svc) h0 = (ferr, hf)"
    by (metis prod.collapse)
  moreover obtain es where "hf = h0 @ map (\<lambda>e. EPatchSvc svc finalizersNullPatch (Some e)) es @ [EPatchSvc svc finalizersNullPatch ferr]"
    using emitsD [OF forceFinalizerRemoval_emits [OF _ assms(2)] f] assms(1) by blast
  ultimately show ?thesis using assms(3,5) ev0(1) c
    by (auto simp: HandleServiceFinalizationWithForce_def split: if_splits)
qed

theorem annotated_service_finalizer_forced_witness:
  "\<exists>rq err h'. run_state (HandleServiceFinalizationWithForce sample_env (ClientImpl sample_env sample_net) annotated_dying) []
       = ((rq, err), h')
     \<and> rq = (err \<noteq> None) \<and> (\<exists>ev. h' = [] @ ev \<and> last ev = EPatchSvc annotated_dying finalizersNullPatch err)"
proof -
  have c: "ContainsFinalizer (lib sample_env) (svcFinalizers annotated_dying) ServiceFinalizer"
    by (simp add: ref_library_def)
  obtain rq err h' where
    r: "run_state (HandleServiceFinalizationWithForce sample_env (ClientImpl sample_env sample_net) annotated_dying) []
       = ((rq, err), h')"
    by (metis prod.collapse)
  from annotated_service_finalizer_forced [OF _ _ c _ r] r show ?thesis by simp
qed

text \<open>
  No finalizer is taken from a service: nothing is patched, and every update follows a read of the
  service right before it and keeps the finalizers that were read.
\<close>

fun finalizers_read :: "event option \<Rightarrow> string list option" where
  "finalizers_read (Some (EGetSvc k r)) = (case r of Inl e \<Rightarrow> None | Inr cur \<Rightarrow> Some (svcFinalizers cur))"
| "finalizers_read _ = None"

fun kept_after :: "event option \<Rightarrow> event \<Rightarrow> bool" where
  "kept_after prev (EUpdate obj r) = (finalizers_read prev = Some (Finalizers (objMeta obj)))"
| "kept_after prev (EPatchSvc svc p r) = False"
| "kept_after prev e = True"

fun keeps_from :: "event option \<Rightarrow> event list \<Rightarrow> bool" where
  "keeps_from prev [] = True"
| "keeps_from prev (e # es) = (kept_after prev e \<and> keeps_from (Some e) es)"

definition keeps_finalizers :: "event list \<Rightarrow> bool" where
  "keeps_finalizers ev = keeps_from None ev"

lemma keeps_from_None: "keeps_from None es \<Longrightarrow> keeps_from prev es"
  by (cases es; cases "(prev, hd es)" rule: kept_after.cases) auto

lemma keeps_from_append: "keeps_from prev xs \<Longrightarrow> keeps_from None ys \<Longrightarrow> keeps_from prev (xs @ ys)"
  by (induction xs arbitrary: prev) (auto intro: keeps_from_None)

interpretation keeps: trace_prop keeps_finalizers
  by unfold_locales (auto simp: keeps_finalizers_def intro: keeps_from_append)

fun k8s_write :: "event \<Rightarrow> bool" where
  "k8s_write (EUpdate obj r) = True"
| "k8s_write (EPatchSvc svc p r) = True"
| "k8s_write _ = False"

lemma keeps_no_write:
  assumes "list_all (\<lambda>e. \<not> k8s_write e) ev"
  shows "keeps_finalizers ev"
proof -
  have "\<not> k8s_write e \<Longrightarrow> kept_after prev e" for prev e
    by (cases e) simp_all
  then have "list_all (\<lambda>e. \<not> k8s_write e) ev \<Longrightarrow> keeps_from prev ev" for prev
    by (induction ev arbitrary: prev) auto
  with assms show ?thesis by (simp add: keeps_finalizers_def)
qed

lemma keeps_client:
  "emits (GetAllFloatingIPs E c) (\<lambda>_. keeps_finalizers)" "emits (GetAllPorts E c) (\<lambda>_. keeps_finalizers)"
  "emits (DeleteFloatingIP E c i) (\<lambda>_. keeps_finalizers)" "emits (DeletePort E c i) (\<lambda>_. keeps_finalizers)"
  unfolding GetAllFloatingIPs_def GetAllPorts_def DeleteFloatingIP_def DeletePort_def deleteResource_def
    checkFloatingIPExists_def checkPortExists_def call_defs
  by (intro keeps.safe_intros keeps.safe_call keeps_no_write; simp)+

interpretation keeps_update: retried keeps_finalizers "plain_attempt (updateMultipleServiceAnnotations_attempt E svc kvs)"
    "\<lambda>_. True" "\<lambda>_ _. True" 2 for E svc kvs
  by unfold_locales
    (auto simp: plain_attempt_def updateMultipleServiceAnnotations_attempt_def GetSvc_def Update_def Let_def svcSetAnnotations_def keeps_finalizers_def
      intro!: emits_bind emits_call emits_return split: sum.split)

lemma keeps_updateMultiple:
  assumes "backoff_spec (lib E)"
  shows "emits (updateMultipleServiceAnnotations E svc kvs) (\<lambda>_. keeps_finalizers)"
  unfolding updateMultipleServiceAnnotations_def backoff_plain_def ExponentialBackoff_eq [OF assms]
  by (rule emits_bind_weaken [OF keeps_update.retry_steps_outcome]) (auto intro!: emits_return)

lemma cleanup_keeps_finalizers:
  assumes "backoff_spec (lib E)"
  shows "emits (CleanupResourcesForService E (ClientImpl E c) svc) (\<lambda>_. keeps_finalizers)"
  unfolding CleanupResourcesForService_def deleteFloatingIPs_loop_def deletePorts_loop_def ClientImpl_def Client.select_convs
  by (intro keeps.safe_intros keeps_client keeps_updateMultiple assms)

text \<open>
  A service is released from the operator's finalizer: by an update that takes exactly this finalizer
  from it and was accepted (or found the service gone), or by the patch that takes all of them.
\<close>

definition service_released :: "library \<Rightarrow> Service \<Rightarrow> event list \<Rightarrow> bool" where
  "service_released L svc ev \<longleftrightarrow>
     finalizers_written L (SvcObj svc) (set (svcFinalizers svc) - {''openstack.jacero.io/service-finalizer''}) ev
     \<or> (\<exists>ev0. ev = ev0 @ [EPatchSvc svc ''{\"metadata\":{\"finalizers\":null}}'' None])"

lemma removeServiceFinalizer_with:
  "SvcObj (removeServiceFinalizer E svc)
     = with_finalizers (SvcObj svc) (RemoveFinalizer (lib E) (svcFinalizers svc) ServiceFinalizer)"
  by (simp add: removeServiceFinalizer_def svcSetFinalizers_def)

lemma set_RemoveFinalizer: "finalizer_spec L \<Longrightarrow> set (RemoveFinalizer L fs f) = set fs - {f}"
  and ContainsFinalizer_iff: "finalizer_spec L \<Longrightarrow> ContainsFinalizer L fs f \<longleftrightarrow> f \<in> set fs"
  and set_AddFinalizer: "finalizer_spec L \<Longrightarrow> set (AddFinalizer L fs f) = insert f (set fs)"
  by (simp_all add: finalizer_spec_def)


lemma finalize_sample:
  "\<exists>ev. run_state (HandleServiceFinalizationWithForce dying_env (ClientImpl dying_env sample_net) sample_dying) h
     = ((False, None), h @ cleanup_trace @ ev)"
proof -
  have c: "ContainsFinalizer ref_library (svcFinalizers sample_dying) ServiceFinalizer"
    by (simp add: sample_dying_def ServiceFinalizer_def ref_library_def)
  obtain ev where "run_state (updateResourceWithRetry dying_env (SvcObj (removeServiceFinalizer dying_env sample_dying)))
      (h @ cleanup_trace) = (None, (h @ cleanup_trace) @ ev)"
    using updateResource_sample [of dying_env "SvcObj (removeServiceFinalizer dying_env sample_dying)"
        "h @ cleanup_trace"]
    by (auto simp: sample_k8s_def)
  then show ?thesis
    by (intro exI [of _ ev]) (simp add: HandleServiceFinalizationWithForce_def c cleanup_sample)
qed


end
