(* ===== verification/Service_Handler.thy ===== *)
theory Service_Handler
  imports Resource_Cleanup
begin

text \<open>
  \<open>src/internal/controller/service_handler.go\<close>: the map from a service to the reconcile requests
  it causes, and the handling of the requests for services themselves.
\<close>

section \<open>Results\<close>

text \<open>\<open>ctrl.Result\<close>: only \<open>RequeueAfter\<close> is ever set, in nanoseconds.\<close>

record Result =
  RequeueAfter :: nat

definition requeueDelay :: nat where "requeueDelay = 30 * 1000000000"

definition noRequeue :: Result where "noRequeue = \<lparr>RequeueAfter = 0\<rparr>"

definition requeue :: Result where "requeue = \<lparr>RequeueAfter = requeueDelay\<rparr>"

section \<open>Credentials\<close>

fun getOpenStackClientForService_loop ::
  "env \<Rightarrow> Service \<Rightarrow> OpenStackLoadBalancer list \<Rightarrow> Client option io" where
  "getOpenStackClientForService_loop E svc [] = ret None"
| "getOpenStackClientForService_loop E svc (lb # lbs) =
     (if isServiceMatchingLBClass svc (ClassName (Spec lb)) then do {
        r \<leftarrow> getOpenStackClient E lb;
        case r of
          Inr osClient \<Rightarrow> ret (Some osClient)
        | Inl _ \<Rightarrow> getOpenStackClientForService_loop E svc lbs
      }
      else getOpenStackClientForService_loop E svc lbs)"

definition getOpenStackClientForService :: "env \<Rightarrow> Service \<Rightarrow> (error + Client) io" where
  "getOpenStackClientForService E svc = do {
     lbs \<leftarrow> ListLBs E;
     case lbs of
       Inl e \<Rightarrow> ret (Inl e)
     | Inr items \<Rightarrow> do {
         found \<leftarrow> getOpenStackClientForService_loop E svc items;
         case found of
           Some osClient \<Rightarrow> ret (Inr osClient)
         | None \<Rightarrow>
             (case items of
                lb # _ \<Rightarrow> getOpenStackClient E lb
              | [] \<Rightarrow> ret (Inl (Errorf ''no OpenStackLoadBalancer found to get credentials'')))
       }
   }"

definition getOpenStackClientFromService :: "env \<Rightarrow> Service \<Rightarrow> (error + Client) io" where
  "getOpenStackClientFromService E svc =
     (let secretName = gmap_index (svcAnnotations svc) AnnotationCredentialsSecretName;
          secretNamespace = gmap_index (svcAnnotations svc) AnnotationCredentialsSecretNamespace
      in if svcAnnotations svc \<noteq> None \<and> secretName \<noteq> [] \<and> secretNamespace \<noteq> []
         then NewClient E secretName secretNamespace
         else getOpenStackClientForService E svc)"

definition credentialAnnotations :: "OpenStackLoadBalancer \<Rightarrow> (string \<times> string) list" where
  "credentialAnnotations lb =
     [(AnnotationCredentialsSecretName, refName (ApplicationCredentialSecretRef (Spec lb))),
      (AnnotationCredentialsSecretNamespace, refNamespace (ApplicationCredentialSecretRef (Spec lb)))]"

definition updateServiceWithCredentials ::
  "env \<Rightarrow> Service \<Rightarrow> OpenStackLoadBalancer \<Rightarrow> error option io" where
  "updateServiceWithCredentials E svc lb =
     updateMultipleServiceAnnotations E svc (credentialAnnotations lb)"

definition addServiceFinalizer :: "env \<Rightarrow> Service \<Rightarrow> Service" where
  "addServiceFinalizer E svc =
     svcSetFinalizers svc (AddFinalizer (lib E) (svcFinalizers svc) ServiceFinalizer)"

definition ensureServiceFinalizer :: "env \<Rightarrow> Service \<Rightarrow> error option io" where
  "ensureServiceFinalizer E svc =
     (if ContainsFinalizer (lib E) (svcFinalizers svc) ServiceFinalizer then ret None
      else updateResourceWithRetry E (SvcObj (addServiceFinalizer E svc)))"

section \<open>Requests for services\<close>

definition serviceHandlerPrefix :: string where
  "serviceHandlerPrefix = ''service-handler-''"

fun matchingRequests :: "Service \<Rightarrow> OpenStackLoadBalancer list \<Rightarrow> Request list" where
  "matchingRequests svc [] = []"
| "matchingRequests svc (lb # lbs) =
     (if isServiceMatchingLBClass svc (ClassName (Spec lb))
      then lbKey lb # matchingRequests svc lbs
      else matchingRequests svc lbs)"

definition findOpenStackLBsForService :: "env \<Rightarrow> Object \<Rightarrow> Request list io" where
  "findOpenStackLBsForService E obj =
     (case obj of
        LBObj _ \<Rightarrow> ret []
      | SvcObj svc \<Rightarrow> do {
          lbs \<leftarrow> ListLBs E;
          case lbs of
            Inl _ \<Rightarrow> ret []
          | Inr items \<Rightarrow>
              (let managed =
                     ContainsFinalizer (lib E) (svcFinalizers svc) ServiceFinalizer
                     \<or> (svcAnnotations svc \<noteq> None
                         \<and> (gmap_index (svcAnnotations svc) AnnotationPortID \<noteq> []
                             \<or> gmap_index (svcAnnotations svc) AnnotationFloatingIPID \<noteq> []));
                   requests = matchingRequests svc items;
                   isManagedService =
                     managed \<or> list_ex (\<lambda>lb. isServiceMatchingLBClass svc (ClassName (Spec lb))) items
               in ret (if isManagedService
                       then requests @ [\<lparr>nnName = serviceHandlerPrefix @ svcName svc,
                                         nnNamespace = svcNamespace svc\<rparr>]
                       else requests))
        })"

definition servicePredicate :: "env \<Rightarrow> Object \<Rightarrow> bool" where
  "servicePredicate E obj =
     (case obj of
        LBObj _ \<Rightarrow> False
      | SvcObj svc \<Rightarrow>
          svcType svc = ''LoadBalancer''
          \<or> ContainsFinalizer (lib E) (svcFinalizers svc) ServiceFinalizer
          \<or> hasAnnotation svc AnnotationPortID
          \<or> hasAnnotation svc AnnotationFloatingIPID)"

definition firstMatchingLB ::
  "Service \<Rightarrow> OpenStackLoadBalancer list \<Rightarrow> OpenStackLoadBalancer option" where
  "firstMatchingLB svc lbs = List.find (\<lambda>lb. isServiceMatchingLBClass svc (ClassName (Spec lb))) lbs"

text \<open>The branch of \<open>reconcileService\<close> for a service that is being deleted.\<close>

definition reconcileDeletedService :: "env \<Rightarrow> Service \<Rightarrow> (Result \<times> error option) io" where
  "reconcileDeletedService E svc = do {
     client \<leftarrow> getOpenStackClientFromService E svc;
     case client of
       Inl e \<Rightarrow>
         if ContainsFinalizer (lib E) (svcFinalizers svc) ServiceFinalizer then do {
           updateErr \<leftarrow> updateResourceWithRetry E (SvcObj (removeServiceFinalizer E svc));
           if updateErr \<noteq> None then do {
             forceErr \<leftarrow> forceFinalizerRemoval E svc;
             if forceErr \<noteq> None then ret (requeue, forceErr) else ret (noRequeue, None)
           }
           else ret (noRequeue, None)
         }
         else ret (requeue, Some e)
     | Inr osClient \<Rightarrow> do {
         (needsRequeue, err) \<leftarrow> HandleServiceFinalizationWithForce E osClient svc;
         if err \<noteq> None then ret (requeue, err)
         else if needsRequeue then ret (requeue, None)
         else ret (noRequeue, None)
       }
   }"

text \<open>The branch for a service of type LoadBalancer that is not being deleted.\<close>

definition reconcileLiveService :: "env \<Rightarrow> Service \<Rightarrow> (Result \<times> error option) io" where
  "reconcileLiveService E svc = do {
     lbs \<leftarrow> ListLBs E;
     case lbs of
       Inl e \<Rightarrow> ret (requeue, Some e)
     | Inr items \<Rightarrow>
         (let matchingLB = firstMatchingLB svc items;
              hasOurAnnotations =
                hasAnnotation svc AnnotationPortID \<or> hasAnnotation svc AnnotationFloatingIPID
          in
          if (matchingLB \<noteq> None \<or> hasOurAnnotations)
             \<and> \<not> ContainsFinalizer (lib E) (svcFinalizers svc) ServiceFinalizer
          then do {
            err \<leftarrow> ensureServiceFinalizer E svc;
            if err \<noteq> None then ret (requeue, err)
            else (case matchingLB of
                    None \<Rightarrow> ret (noRequeue, None)
                  | Some lb \<Rightarrow> do {
                      credErr \<leftarrow> updateServiceWithCredentials E svc lb;
                      if credErr \<noteq> None then ret (requeue, credErr) else ret (noRequeue, None)
                    })
          }
          else ret (noRequeue, None))
   }"

definition reconcileService :: "env \<Rightarrow> Request \<Rightarrow> (Result \<times> error option) io" where
  "reconcileService E req =
     (let nameParts = strings_Split (nnName req) serviceHandlerPrefix in
      if length nameParts \<noteq> 2 then ret (noRequeue, None)
      else do {
        r \<leftarrow> GetSvc E \<lparr>nnName = nameParts ! 1, nnNamespace = nnNamespace req\<rparr>;
        case r of
          Inl e \<Rightarrow> if IsNotFound (lib E) e then ret (noRequeue, None) else ret (noRequeue, Some e)
        | Inr svc \<Rightarrow>
            if \<not> IsZero (DeletionTimestamp (svcMeta svc)) then reconcileDeletedService E svc
            else if svcType svc = ''LoadBalancer'' then reconcileLiveService E svc
            else ret (noRequeue, None)
      })"

section \<open>Audited traces\<close>

lemma getOpenStackClientForService_loop_returns:
  "returns (getOpenStackClientForService_loop E svc lbs)
     (\<lambda>r. \<forall>cl. r = Some cl \<longrightarrow> (\<exists>c. cl = ClientImpl E c))"
proof (induction lbs)
  case Nil
  show ?case by (simp add: returns_return)
next
  case (Cons lb lbs)
  have *: "returns (getOpenStackClient E lb) (is_impl E)"
    unfolding getOpenStackClient_def by (rule NewClient_returns)
  show ?case
    unfolding getOpenStackClientForService_loop.simps
    by (intro returns_if returns_bind_strong [OF *] Cons.IH)
      (auto intro: returns_return Cons.IH simp: is_impl_def split: sum.split)
qed

lemma getOpenStackClientForService_returns:
  "returns (getOpenStackClientForService E svc) (is_impl E)"
proof -
  have *: "returns (getOpenStackClient E lb) (is_impl E)" for lb
    unfolding getOpenStackClient_def by (rule NewClient_returns)
  show ?thesis
    unfolding getOpenStackClientForService_def
    by (rule returns_bind, rule returns_case_sum, rule returns_return, simp,
        rule returns_bind_strong [OF getOpenStackClientForService_loop_returns])
      (auto intro: returns_return * simp: is_impl_def split: option.split list.split)
qed

lemma getOpenStackClientFromService_returns:
  "returns (getOpenStackClientFromService E svc) (is_impl E)"
  unfolding getOpenStackClientFromService_def Let_def
  by (intro returns_if NewClient_returns getOpenStackClientForService_returns)

context audited begin

lemma safe_getOpenStackClientForService_loop:
  "emits (getOpenStackClientForService_loop E svc lbs) (\<lambda>_. P)"
proof (induction lbs)
  case Nil
  show ?case by (simp add: safe_return)
next
  case (Cons lb lbs)
  show ?case unfolding getOpenStackClientForService_loop.simps
    by (intro safe_intros safe_getOpenStackClient Cons.IH)
qed

lemma safe_getOpenStackClientForService: "emits (getOpenStackClientForService E svc) (\<lambda>_. P)"
  unfolding getOpenStackClientForService_def
  by (intro safe_intros safe_calls safe_getOpenStackClientForService_loop)
    (simp add: safe_return safe_getOpenStackClient split: list.split)

lemma safe_getOpenStackClientFromService: "emits (getOpenStackClientFromService E svc) (\<lambda>_. P)"
  unfolding getOpenStackClientFromService_def
  by (intro safe_intros safe_NewClient safe_getOpenStackClientForService)

lemma safe_ensureServiceFinalizer:
  "backoff_spec (lib E) \<Longrightarrow> emits (ensureServiceFinalizer E svc) (\<lambda>_. P)"
  unfolding ensureServiceFinalizer_def by (intro safe_intros safe_utils)

lemma safe_updateServiceWithCredentials:
  "backoff_spec (lib E) \<Longrightarrow> emits (updateServiceWithCredentials E svc lb) (\<lambda>_. P)"
  unfolding updateServiceWithCredentials_def by (rule safe_updateMultipleServiceAnnotations)

lemma safe_reconcileLiveService:
  "backoff_spec (lib E) \<Longrightarrow> emits (reconcileLiveService E svc) (\<lambda>_. P)"
  unfolding reconcileLiveService_def
  by (intro safe_intros safe_calls safe_ensureServiceFinalizer safe_updateServiceWithCredentials)

lemma safe_findOpenStackLBsForService: "emits (findOpenStackLBsForService E obj) (\<lambda>_. P)"
  unfolding findOpenStackLBsForService_def
  by (cases obj; simp only: Object.case) (intro safe_intros safe_calls)+

end

context audited_impl begin

lemmas safe_impl_HandleServiceFinalizationWithForce =
  audited_client.safe_HandleServiceFinalizationWithForce [OF impl_audited]

lemma safe_reconcileDeletedService:
  assumes "retry_spec (lib E)"
  shows "emits (reconcileDeletedService E svc) (\<lambda>_. P)"
  unfolding reconcileDeletedService_def
  by (rule safe_impl_bind [OF safe_getOpenStackClientFromService getOpenStackClientFromService_returns];
      simp only: sum.case)
    (intro safe_intros safe_utils safe_impl_HandleServiceFinalizationWithForce assms
      retry_spec_backoff retry_spec_conflict)+

lemma safe_reconcileService:
  assumes "retry_spec (lib E)"
  shows "emits (reconcileService E req) (\<lambda>_. P)"
  unfolding reconcileService_def
  by (intro safe_intros safe_calls safe_reconcileDeletedService safe_reconcileLiveService assms
      retry_spec_backoff)

end

section \<open>Which requests a service causes\<close>

text \<open>The request that stands for a service itself.\<close>

definition serviceRequest :: "Service \<Rightarrow> Request" where
  "serviceRequest svc = \<lparr>nnName = serviceHandlerPrefix @ svcName svc, nnNamespace = svcNamespace svc\<rparr>"

lemma matchingRequests_filter:
  "matchingRequests svc lbs = map lbKey (filter (\<lambda>lb. isServiceMatchingLBClass svc (ClassName (Spec lb))) lbs)"
  by (induction lbs) auto

lemma hasAnnotation_index: "hasAnnotation svc k \<longleftrightarrow> svcAnnotations svc \<noteq> None \<and> gmap_index (svcAnnotations svc) k \<noteq> []"
  by (auto simp: hasAnnotation_def gmap_index_def gmap_lookup_def split: option.split)

text \<open>
  C34: a change of a service causes a request for every load balancer of its class, in the order of
  the list, followed by the request for the service itself if it has the operator's finalizer or
  annotations or matches at least one load balancer. When the load balancers cannot be listed it
  causes no request at all, not even for a service that waits for the removal of the finalizer.
\<close>

theorem findOpenStackLBsForService_spec:
  "run_state (findOpenStackLBsForService E (SvcObj svc)) h =
     (case k8s_ListLBs (k8s E) h of
        Inl e \<Rightarrow> []
      | Inr lbs \<Rightarrow>
          map lbKey (filter (\<lambda>lb. isServiceMatchingLBClass svc (ClassName (Spec lb))) lbs)
          @ (if ContainsFinalizer (lib E) (svcFinalizers svc) ServiceFinalizer \<or> annotated svc
                \<or> list_ex (\<lambda>lb. isServiceMatchingLBClass svc (ClassName (Spec lb))) lbs
             then [serviceRequest svc] else []),
      h @ [EListLBs (k8s_ListLBs (k8s E) h)])"
  by (auto simp: findOpenStackLBsForService_def ListLBs_def matchingRequests_filter serviceRequest_def
      annotated_def hasAnnotation_index list_ex_iff Let_def split: sum.split)

text \<open>
  C35: handling the request for a service starts by fetching that very service, as long as the
  service's name does not contain the prefix \<open>service-handler-\<close>; the request for a service whose
  name does contain it is dropped without a single call.
\<close>

theorem service_request_roundtrip:
  assumes "retry_spec (lib E)"
  shows "case run_state (reconcileService E (serviceRequest svc)) h of (r, h') \<Rightarrow>
    if strings_Contains (svcName svc) serviceHandlerPrefix
    then r = (noRequeue, None) \<and> h' = h
    else \<exists>ev. h' = h @ EGetSvc (svcKey svc) (k8s_GetSvc (k8s E) h (svcKey svc)) # ev"
proof -
  have ne: "serviceHandlerPrefix \<noteq> []" by (simp add: serviceHandlerPrefix_def)
  have sp: "strings_Split (nnName (serviceRequest svc)) serviceHandlerPrefix = [] # strings_Split (svcName svc) serviceHandlerPrefix"
    by (simp add: serviceRequest_def strings_Split_prefix [OF ne])
  show ?thesis
  proof (cases "strings_Contains (svcName svc) serviceHandlerPrefix")
    case True
    with strings_Split_length_ge2 [OF ne True] sp show ?thesis
      by (simp add: reconcileService_def Let_def)
  next
    case False
    have k: "\<lparr>nnName = svcName svc, nnNamespace = nnNamespace (serviceRequest svc)\<rparr> = svcKey svc"
      by (simp add: serviceRequest_def svcKey_def)
    let ?h = "h @ [EGetSvc (svcKey svc) (k8s_GetSvc (k8s E) h (svcKey svc))]"
    have x: "\<exists>ev. snd (run_state (reconcileDeletedService E s) ?h) = ?h @ ev" "\<exists>ev. snd (run_state (reconcileLiveService E s) ?h) = ?h @ ev" for s
      using any_env.safe_reconcileDeletedService [OF assms, of s] any_trace.safe_reconcileLiveService [OF retry_spec_backoff [OF assms], of s]
      unfolding emits_def by blast+
    from False show ?thesis
      using sp strings_Split_single [OF ne False] x
      by (auto simp: reconcileService_def Let_def GetSvc_def k split_beta split: sum.split)
  qed
qed

theorem service_request_roundtrip_witness:
  "case run_state (reconcileService sample_env (serviceRequest sample_svc)) [] of (r, h') \<Rightarrow>
    if strings_Contains (svcName sample_svc) serviceHandlerPrefix
    then r = (noRequeue, None) \<and> h' = []
    else \<exists>ev. h' = [] @ EGetSvc (svcKey sample_svc) (k8s_GetSvc (k8s sample_env) [] (svcKey sample_svc)) # ev"
  by (rule service_request_roundtrip) simp

section \<open>Adopting a service\<close>

text \<open>
  The service with the two annotations that name the credentials secret of a load balancer, and a trace
  that ends with an accepted write of the service as read right before, with these annotations.
\<close>

definition with_credentials :: "OpenStackLoadBalancer \<Rightarrow> Service \<Rightarrow> Service" where
  "with_credentials lb svc = svc\<lparr>svcMeta := (svcMeta svc)\<lparr>Annotations := Some ((gmap_make (svcAnnotations svc))(
     ''openstack.jacero.io/credentials-secret-name'' \<mapsto> refName (ApplicationCredentialSecretRef (Spec lb)),
     ''openstack.jacero.io/credentials-secret-namespace'' \<mapsto> refNamespace (ApplicationCredentialSecretRef (Spec lb))))\<rparr>\<rparr>"

definition credentials_stored_last :: "NamespacedName \<Rightarrow> OpenStackLoadBalancer \<Rightarrow> event list \<Rightarrow> bool" where
  "credentials_stored_last k lb ev \<longleftrightarrow>
     (\<exists>ev0 cur stored. ev = ev0 @ [EGetSvc k (Inr cur), EUpdate (SvcObj (with_credentials lb cur)) (Inr stored)])"

lemma with_credentials_annotations: "setAnnotations (credentialAnnotations lb) = with_credentials lb"
  by (rule ext) (simp add: setAnnotations_def credentialAnnotations_def with_credentials_def svcSetAnnotations_def annotation_defs
      fun_upd_twist)

lemma rmw_last_update:
  "rmw k f (ev @ [EGetSvc k' (Inr cur), EUpdate obj r]) \<Longrightarrow> k' = k \<and> (\<exists>svc'. f cur = Some svc' \<and> obj = SvcObj svc')"
proof (induction ev rule: length_induct)
  case (1 ev)
  show ?case
  proof (cases ev)
    case Nil
    with "1.prems" show ?thesis by (auto split: option.splits)
  next
    case (Cons e es)
    with "1.prems" consider "rmw k f (es @ [EGetSvc k' (Inr cur), EUpdate obj r])"
      | e' es' where "es = e' # es'" "rmw k f (es' @ [EGetSvc k' (Inr cur), EUpdate obj r])"
      by (cases "(k, f, ev)" rule: rmw.cases; cases es) (auto split: option.splits event.splits)
    then show ?thesis
    proof cases
      case 1
      with "1.IH" [rule_format, of es] Cons show ?thesis by simp
    next
      case 2
      with "1.IH" [rule_format, of "es'"] Cons show ?thesis by (simp add: less_Suc_eq)
    qed
  qed
qed

lemma rmw_last_read: "rmw k f (ev @ [EGetSvc k' (Inl e)]) \<Longrightarrow> k' = k"
proof (induction ev rule: length_induct)
  case (1 ev)
  show ?case
  proof (cases ev)
    case Nil
    with "1.prems" show ?thesis by simp
  next
    case (Cons e0 es)
    with "1.prems" consider "rmw k f (es @ [EGetSvc k' (Inl e)])"
      | e' es' where "es = e' # es'" "rmw k f (es' @ [EGetSvc k' (Inl e)])"
      by (cases "(k, f, ev)" rule: rmw.cases; cases es) (auto split: option.splits event.splits)
    then show ?thesis
    proof cases
      case 1
      with "1.IH" [rule_format, of es] Cons show ?thesis by simp
    next
      case 2
      with "1.IH" [rule_format, of "es'"] Cons show ?thesis by (simp add: less_Suc_eq)
    qed
  qed
qed

lemma credentials_outcome:
  assumes w: "rmw (svcKey svc) (\<lambda>s. Some (with_credentials lb s)) ev" and s: "suffix ev2 ev"
    and d: "rmw_done L (\<lambda>s. Some (with_credentials lb s)) None ev2"
  shows "credentials_stored_last (svcKey svc) lb ev \<or> gone_last L (SvcObj svc) ev"
proof -
  from s obtain ev0 where ev: "ev = ev0 @ ev2" by (auto elim: suffixE)
  from d consider (gone) k e where "ev2 = [EGetSvc k (Inl e)]" "IsNotFound L e"
    | (stored) k cur obj stored where "ev2 = [EGetSvc k (Inr cur), EUpdate obj (Inr stored)]"
    by (auto simp: rmw_done_def)
  then show ?thesis
  proof cases
    case gone
    with w ev have "k = svcKey svc" by (simp add: rmw_last_read)
    with ev gone show ?thesis by (auto simp: gone_last_def)
  next
    case stored
    with w ev have "k = svcKey svc \<and> obj = SvcObj (with_credentials lb cur)" using rmw_last_update by fastforce
    with ev stored show ?thesis by (auto simp: credentials_stored_last_def)
  qed
qed

text \<open>
  C36: when the service reconciler ends without error on a service that does not have the finalizer
  yet, and the load balancer \<open>lb\<close> is the first one whose class matches, it first wrote the service with
  exactly the operator's finalizer added, and then, on top of a fresh read, the two annotations that name
  the credentials secret of \<open>lb\<close>. Each of the two writes was accepted, unless the read before it
  answered that the service does not exist any more.
\<close>

theorem reconcileLiveService_adopts:
  assumes "retry_spec (lib E)" and "range_spec (sys E)" and "finalizer_spec (lib E)"
    and "k8s_ListLBs (k8s E) h = Inr (lbs1 @ lb # lbs2)"
    and "isServiceMatchingLBClass svc (ClassName (Spec lb))"
    and "\<forall>lb' \<in> set lbs1. \<not> isServiceMatchingLBClass svc (ClassName (Spec lb'))"
    and "''openstack.jacero.io/service-finalizer'' \<notin> set (svcFinalizers svc)"
    and "run_state (reconcileLiveService E svc) h = ((res, None), h')"
  shows "\<exists>ev1 ev2. h' = h @ EListLBs (Inr (lbs1 @ lb # lbs2)) # ev1 @ ev2
     \<and> finalizers_written (lib E) (SvcObj svc)
         (insert ''openstack.jacero.io/service-finalizer'' (set (svcFinalizers svc))) ev1
     \<and> rmw (svcKey svc) (\<lambda>cur. Some (with_credentials lb cur)) ev2
     \<and> (credentials_stored_last (svcKey svc) lb ev2 \<or> gone_last (lib E) (SvcObj svc) ev2)"
proof -
  have b: "backoff_spec (lib E)" using assms(1) by auto
  let ?lbs = "lbs1 @ lb # lbs2"
  let ?h = "h @ [EListLBs (Inr ?lbs)]"
  have f: "\<not> ContainsFinalizer (lib E) (svcFinalizers svc) ServiceFinalizer"
    using assms(3,7) by (simp add: ContainsFinalizer_iff ServiceFinalizer_def)
  have m: "firstMatchingLB svc ?lbs = Some lb"
    unfolding firstMatchingLB_def by (rule find_append_first) (use assms(5,6) in auto)
  have w: "SvcObj (addServiceFinalizer E svc)
      = with_finalizers (SvcObj svc) (AddFinalizer (lib E) (svcFinalizers svc) ServiceFinalizer)"
    by (simp add: addServiceFinalizer_def svcSetFinalizers_def)
  obtain uerr hu where u: "run_state (updateResourceWithRetry E (SvcObj (addServiceFinalizer E svc))) ?h = (uerr, hu)"
    by (metis prod.collapse)
  obtain ev1 where ev1: "hu = ?h @ ev1" "uerr = None \<longrightarrow> finalizers_written (lib E) (SvcObj svc)
       (insert ''openstack.jacero.io/service-finalizer'' (set (svcFinalizers svc))) ev1"
    using emitsD [OF updateResource_finalizers [OF b] u [unfolded w]]
    by (auto simp: set_AddFinalizer [OF assms(3)] ServiceFinalizer_def)
  obtain cerr hc where c: "run_state (updateMultipleServiceAnnotations E svc (credentialAnnotations lb)) hu = (cerr, hc)"
    by (metis prod.collapse)
  have "distinct (map fst (credentialAnnotations lb))" by (simp add: credentialAnnotations_def annotation_defs)
  with c have r: "rmw_result E (svcKey svc) (\<lambda>s. Some (with_credentials lb s)) hu (cerr, hc)"
    using rmw_with_retry [OF b] unfolding with_credentials_annotations [symmetric]
    by (metis updateMultipleServiceAnnotations_def updateMultipleServiceAnnotations_attempt_rmw assms(2))
  have ok: "uerr = None" "cerr = None" "h' = hc"
    using assms(4,8) f m u c by (auto simp: reconcileLiveService_def ListLBs_def ensureServiceFinalizer_def updateServiceWithCredentials_def
        split: if_splits)
  from r ok obtain ev2 where ev2: "hc = hu @ ev2" "rmw (svcKey svc) (\<lambda>s. Some (with_credentials lb s)) ev2"
    "credentials_stored_last (svcKey svc) lb ev2 \<or> gone_last (lib E) (SvcObj svc) ev2"
    by (auto simp: rmw_result_def dest: credentials_outcome)
  with ev1 ok show ?thesis by (intro exI [of _ ev1] exI [of _ ev2]) simp
qed

lemma updateMultiple_sample:
  "\<exists>ev. run_state (updateMultipleServiceAnnotations sample_env svc kvs) h = (None, h @ ev)"
  by (simp add: updateMultipleServiceAnnotations_def backoff_plain_def backoff_first plain_attempt_def
      updateMultipleServiceAnnotations_attempt_def call_defs Let_def sample_k8s_def)

lemma live_sample:
  "\<exists>h'. run_state (reconcileLiveService sample_env sample_svc) [] = ((noRequeue, None), h')"
proof -
  let ?h = "[EListLBs (Inr [sample_lb])]"
  have l: "k8s_ListLBs sample_k8s [] = Inr [sample_lb]" by (simp add: sample_k8s_def)
  have m: "firstMatchingLB sample_svc [sample_lb] = Some sample_lb"
    by (simp add: firstMatchingLB_def isServiceMatchingLBClass_def sample_svc_def sample_lb_def)
  have f: "\<not> ContainsFinalizer ref_library (svcFinalizers sample_svc) ServiceFinalizer"
    by (simp add: ref_library_def sample_svc_def sample_meta_def)
  obtain e1 where "run_state (updateResourceWithRetry sample_env (SvcObj (addServiceFinalizer sample_env sample_svc))) ?h
      = (None, ?h @ e1)"
    using updateResource_sample [of sample_env "SvcObj (addServiceFinalizer sample_env sample_svc)" ?h]
    by (auto simp: sample_k8s_def)
  moreover obtain e2 where "run_state (updateMultipleServiceAnnotations sample_env sample_svc (credentialAnnotations sample_lb)) (?h @ e1)
      = (None, (?h @ e1) @ e2)"
    using updateMultiple_sample by blast
  ultimately show ?thesis
    by (simp add: reconcileLiveService_def ListLBs_def l m f ensureServiceFinalizer_def
        updateServiceWithCredentials_def)
qed

theorem reconcileLiveService_adopts_witness:
  "\<exists>h' ev1 ev2. run_state (reconcileLiveService sample_env sample_svc) [] = ((noRequeue, None), h')
     \<and> h' = [] @ EListLBs (Inr [sample_lb]) # ev1 @ ev2
     \<and> finalizers_written (lib sample_env) (SvcObj sample_svc) {''openstack.jacero.io/service-finalizer''} ev1
     \<and> rmw (svcKey sample_svc) (\<lambda>cur. Some (with_credentials sample_lb cur)) ev2
     \<and> (credentials_stored_last (svcKey sample_svc) sample_lb ev2 \<or> gone_last (lib sample_env) (SvcObj sample_svc) ev2)"
proof -
  obtain h' where r: "run_state (reconcileLiveService sample_env sample_svc) [] = ((noRequeue, None), h')"
    using live_sample by blast
  have l: "k8s_ListLBs (k8s sample_env) [] = Inr ([] @ sample_lb # [])" by (simp add: sample_k8s_def)
  have m: "isServiceMatchingLBClass sample_svc (ClassName (Spec sample_lb))"
    by (simp add: isServiceMatchingLBClass_def sample_svc_def sample_lb_def)
  have n: "svcFinalizers sample_svc = []" by (simp add: sample_svc_def sample_meta_def)
  from reconcileLiveService_adopts [OF _ _ _ l m _ _ r] r show ?thesis by (simp add: n)
qed

lemma client_sample:
  "\<exists>ev. run_state (getOpenStackClientFromService dying_env sample_dying) h
     = (Inr (ClientImpl dying_env sample_net), h @ ev)"
proof -
  have m: "isServiceMatchingLBClass sample_dying (ClassName (Spec sample_lb))"
    by (simp add: isServiceMatchingLBClass_def sample_dying_def sample_lb_def sample_svc_def)
  have l: "k8s_ListLBs (k8s dying_env) h = Inr [sample_lb]" for h by (simp add: sample_k8s_def)
  have a: "svcAnnotations sample_dying = None" by (simp add: sample_dying_def sample_meta_def)
  have nc: "\<exists>ev. run_state (NewClient dying_env sn sns) h = (Inr (ClientImpl dying_env sample_net), h @ ev)"
    for sn sns h by (rule NewClient_sample) (simp_all add: sample_k8s_def)
  obtain ev where "run_state (getOpenStackClient dying_env sample_lb) (h @ [EListLBs (Inr [sample_lb])])
     = (Inr (ClientImpl dying_env sample_net), (h @ [EListLBs (Inr [sample_lb])]) @ ev)"
    using nc unfolding getOpenStackClient_def by blast
  then show ?thesis
    by (simp add: getOpenStackClientFromService_def a getOpenStackClientForService_def ListLBs_def l m
        del: dying_env_simps)
qed

section \<open>Whose credentials are used\<close>

text \<open>The secret a load balancer refers to, and clients connected with the secret of one of several.\<close>

definition secretKey :: "OpenStackLoadBalancer \<Rightarrow> NamespacedName" where
  "secretKey lb = \<lparr>nnName = refName (ApplicationCredentialSecretRef (Spec lb)),
     nnNamespace = refNamespace (ApplicationCredentialSecretRef (Spec lb))\<rparr>"

definition client_from :: "env \<Rightarrow> OpenStackLoadBalancer list \<Rightarrow> Client \<Rightarrow> event list \<Rightarrow> bool" where
  "client_from E lbs cl ev \<longleftrightarrow>
     (\<exists>lb ev1 ev2. lb \<in> set lbs \<and> ev = ev1 @ ev2 \<and> connected E (secretKey lb) cl ev2)"

lemma client_from_Nil [simp]: "\<not> client_from E [] cl ev"
  by (simp add: client_from_def)

lemma client_from_mono:
  "client_from E lbs cl ev \<Longrightarrow> set lbs \<subseteq> set lbs' \<Longrightarrow> client_from E lbs' cl (ev0 @ ev)"
  unfolding client_from_def by (metis append.assoc subsetD)

lemma client_from_subset: "client_from E lbs cl ev \<Longrightarrow> set lbs \<subseteq> set lbs' \<Longrightarrow> client_from E lbs' cl ev"
  unfolding client_from_def by blast

lemma getOpenStackClient_emits:
  "emits (getOpenStackClient E lb) (\<lambda>r ev. \<forall>cl. r = Inr cl \<longrightarrow> client_from E [lb] cl ev)"
  unfolding getOpenStackClient_def
  by (rule emits_weaken [OF NewClient_emits]) (auto simp: client_from_def secretKey_def intro: exI [of _ "[]"])

lemma getOpenStackClientForService_loop_emits:
  "emits (getOpenStackClientForService_loop E svc lbs) (\<lambda>r ev. \<forall>cl. r = Some cl \<longrightarrow>
     client_from E (filter (\<lambda>lb. isServiceMatchingLBClass svc (ClassName (Spec lb))) lbs) cl ev)"
proof (induction lbs)
  case Nil
  show ?case by (auto intro: emits_return)
next
  case (Cons lb lbs)
  show ?case
  proof (cases "isServiceMatchingLBClass svc (ClassName (Spec lb))")
    case True
    have "emits (getOpenStackClient E lb \<bind> (\<lambda>r. case r of
          Inr osClient \<Rightarrow> ret (Some osClient)
        | Inl _ \<Rightarrow> getOpenStackClientForService_loop E svc lbs))
        (\<lambda>r ev. \<forall>cl. r = Some cl \<longrightarrow> client_from E (lb # filter (\<lambda>lb. isServiceMatchingLBClass svc (ClassName (Spec lb))) lbs) cl ev)"
      by (rule emits_bind_weaken [OF getOpenStackClient_emits])
        (auto intro!: emits_return emits_weaken [OF Cons.IH] split: sum.split
          intro: client_from_subset client_from_mono)
    with True show ?thesis by simp
  next
    case False
    with Cons.IH show ?thesis by simp
  qed
qed

text \<open>
  Where the client for a service comes from: the secret named by its annotations if both are set;
  otherwise, after the load balancers were listed, the secret of one of its class or of the first
  one of all.
\<close>

definition service_client_source :: "env \<Rightarrow> Service \<Rightarrow> Client \<Rightarrow> event list \<Rightarrow> bool" where
  "service_client_source E svc cl ev \<longleftrightarrow>
     (if hasAnnotation svc AnnotationCredentialsSecretName \<and> hasAnnotation svc AnnotationCredentialsSecretNamespace
      then connected E \<lparr>nnName = gmap_index (svcAnnotations svc) AnnotationCredentialsSecretName,
             nnNamespace = gmap_index (svcAnnotations svc) AnnotationCredentialsSecretNamespace\<rparr> cl ev
      else \<exists>lbs ev'. ev = EListLBs (Inr lbs) # ev' \<and> lbs \<noteq> []
             \<and> client_from E (hd lbs # filter (\<lambda>lb. isServiceMatchingLBClass svc (ClassName (Spec lb))) lbs) cl ev')"

lemma getOpenStackClientForService_emits:
  "emits (getOpenStackClientForService E svc) (\<lambda>r ev. \<forall>cl. r = Inr cl \<longrightarrow> (\<exists>lbs ev'. ev = EListLBs (Inr lbs) # ev' \<and> lbs \<noteq> []
             \<and> client_from E (hd lbs # filter (\<lambda>lb. isServiceMatchingLBClass svc (ClassName (Spec lb))) lbs) cl ev'))"
  unfolding getOpenStackClientForService_def ListLBs_def
  apply (rule emits_bind, rule emits_call)
  subgoal for lbs
    apply (cases lbs; simp only: sum.case)
    subgoal by (auto intro: emits_return)
    subgoal for items
      apply (rule emits_bind_weaken [OF getOpenStackClientForService_loop_emits])
      subgoal for found ev
        apply (cases found; cases items)
        apply (auto intro!: emits_return emits_weaken [OF getOpenStackClient_emits]
          intro: client_from_subset client_from_mono)
        done
      done
    done
  done

lemma getOpenStackClientFromService_emits:
  "emits (getOpenStackClientFromService E svc) (\<lambda>r ev. \<forall>cl. r = Inr cl \<longrightarrow> service_client_source E svc cl ev)"
  unfolding getOpenStackClientFromService_def service_client_source_def hasAnnotation_index Let_def
  using NewClient_emits getOpenStackClientForService_emits by (auto elim!: emits_weaken)

text \<open>
  C26: the client used to clean up after a deleted service was connected with the credentials its
  annotations name, if they name any; otherwise with those of a load balancer of its class, or of the
  first load balancer in the list.
\<close>

theorem service_client_credentials:
  assumes "run_state (getOpenStackClientFromService E svc) h = (Inr cl, h')"
  shows "\<exists>ev. h' = h @ ev \<and> service_client_source E svc cl ev"
  using emitsD [OF getOpenStackClientFromService_emits assms] by auto

theorem service_client_credentials_witness:
  "\<exists>h' ev. run_state (getOpenStackClientFromService dying_env sample_dying) [] = (Inr (ClientImpl dying_env sample_net), h')
     \<and> h' = [] @ ev \<and> service_client_source dying_env sample_dying (ClientImpl dying_env sample_net) ev"
proof -
  obtain h' where r: "run_state (getOpenStackClientFromService dying_env sample_dying) []
      = (Inr (ClientImpl dying_env sample_net), h')"
    using client_sample by blast
  with service_client_credentials [OF r] show ?thesis by blast
qed

end
