(* ===== verification/Reconciler.thy ===== *)
theory Reconciler
  imports Service_Handler
begin

text \<open>
  \<open>src/internal/controller/openstackloadbalancer_controller.go\<close>: the reconcile loop of the
  OpenStackLoadBalancer resource.

  The functions that receive the load balancer through a pointer return it next to their result,
  since they change its status. Services are only changed through the API, never in memory.
\<close>

section \<open>Steps for one service\<close>

definition ensureServiceHasFinalizer :: "env \<Rightarrow> Service \<Rightarrow> (bool \<times> error option) io" where
  "ensureServiceHasFinalizer E svc =
     (if ContainsFinalizer (lib E) (svcFinalizers svc) ServiceFinalizer then ret (False, None)
      else do {
        err \<leftarrow> updateResourceWithRetry E (SvcObj (addServiceFinalizer E svc));
        if err \<noteq> None then ret (True, err) else ret (True, None)
      })"

definition ensureServiceHasCredentials ::
  "env \<Rightarrow> Service \<Rightarrow> OpenStackLoadBalancer \<Rightarrow> (bool \<times> error option) io" where
  "ensureServiceHasCredentials E svc lb =
     (if hasAnnotation svc AnnotationCredentialsSecretName
         \<and> hasAnnotation svc AnnotationCredentialsSecretNamespace then ret (False, None)
      else do {
        err \<leftarrow> updateMultipleServiceAnnotations E svc (credentialAnnotations lb);
        if err \<noteq> None then ret (True, err) else ret (False, None)
      })"

definition detectNetworkForLB ::
  "env \<Rightarrow> OpenStackLoadBalancer \<Rightarrow> Client \<Rightarrow> string \<Rightarrow>
     ((bool \<times> error option) \<times> OpenStackLoadBalancer) io" where
  "detectNetworkForLB E lb osClient serviceIP =
     (if LBNetworkID (Status lb) \<noteq> [] \<and> LBSubnetID (Status lb) \<noteq> [] then ret ((False, None), lb)
      else do {
        r \<leftarrow> Client_DetectNetworkForIP osClient serviceIP;
        case r of
          Inl e \<Rightarrow> do {
            lb' \<leftarrow> setCondition E lb ConditionTypeNetworkDetected ConditionFalse
                     ''NetworkDetectionFailed'' (Error e);
            ret ((True, Some e), lb')
          }
        | Inr (networkID, subnetID) \<Rightarrow> do {
            lb' \<leftarrow> setCondition E
                     (lb\<lparr>Status := (Status lb)\<lparr>LBNetworkID := networkID, LBSubnetID := subnetID\<rparr>\<rparr>)
                     ConditionTypeNetworkDetected ConditionTrue ''NetworkDetected''
                     (''Detected network '' @ networkID @ '' and subnet '' @ subnetID @ '' for IP '' @ serviceIP);
            ret ((False, None), lb')
          }
      })"

definition portDescription :: "Service \<Rightarrow> string" where
  "portDescription svc =
     ''Port created for Kubernetes service '' @ svcNamespace svc @ ''/'' @ svcName svc
       @ '' by OpenStack LB Operator''"

text \<open>The result is the port ID, whether to requeue, and the error.\<close>

definition ensurePortExists ::
  "env \<Rightarrow> OpenStackLoadBalancer \<Rightarrow> Service \<Rightarrow> Client \<Rightarrow> string \<Rightarrow>
     ((string \<times> bool \<times> error option) \<times> OpenStackLoadBalancer) io" where
  "ensurePortExists E lb svc osClient serviceIP =
     (let val = gmap_index (svcAnnotations svc) AnnotationPortID in
      if val \<noteq> [] then do {
        r \<leftarrow> Client_GetPort osClient val;
        case r of
          Inl e \<Rightarrow> ret (([], True, Some (ErrorfW (''failed to verify port '' @ val) e)), lb)
        | Inr exists \<Rightarrow>
            if \<not> exists then do {
              err \<leftarrow> updateServiceAnnotationWithRetry E svc AnnotationPortID [];
              ret (([], True, err), lb)
            }
            else ret ((val, False, None), lb)
      }
      else do {
        r \<leftarrow> Client_CreatePort osClient (LBNetworkID (Status lb)) (LBSubnetID (Status lb))
               (portNameFor svc) serviceIP (portDescription svc) (svcNamespace svc) (svcName svc);
        case r of
          Inl e \<Rightarrow> do {
            lb' \<leftarrow> setCondition E lb ConditionTypePortCreated ConditionFalse
                     ''PortCreationFailed'' (Error e);
            ret (([], True, Some e), lb')
          }
        | Inr portID \<Rightarrow> do {
            err \<leftarrow> updateServiceAnnotationWithRetry E svc AnnotationPortID portID;
            if err \<noteq> None then ret ((portID, True, err), lb)
            else do {
              _ \<leftarrow> Eventf svc ''PortCreated''
                     (''Created OpenStack port '' @ portID @ '' for service IP '' @ serviceIP);
              lb' \<leftarrow> setCondition E lb ConditionTypePortCreated ConditionTrue ''PortCreated''
                       (''Created port '' @ portID @ '' for IP '' @ serviceIP);
              ret ((portID, False, None), lb')
            }
          }
      })"

definition floatingIPDescription :: "Service \<Rightarrow> string" where
  "floatingIPDescription svc =
     ''Floating IP for Kubernetes service '' @ svcNamespace svc @ ''/'' @ svcName svc
       @ '' by OpenStack LB Operator''"

text \<open>The result is whether to requeue, the floating IP's ID and address, and the error.\<close>

definition createOrFindFloatingIP ::
  "env \<Rightarrow> OpenStackLoadBalancer \<Rightarrow> Service \<Rightarrow> Client \<Rightarrow> string \<Rightarrow>
     ((bool \<times> string \<times> string \<times> error option) \<times> OpenStackLoadBalancer) io" where
  "createOrFindFloatingIP E lb svc osClient portID =
     (if FloatingIPNetworkID (Spec lb) = [] then
        (let e = Errorf ''floatingIPNetworkID must be specified when createFloatingIP is true'' in do {
           lb' \<leftarrow> setCondition E lb ConditionTypeFloatingIPCreated ConditionFalse
                    ''MissingFloatingIPNetwork'' (Error e);
           ret ((True, [], [], Some e), lb')
         })
      else do {
        existing \<leftarrow> Client_GetFloatingIPByPortID osClient portID;
        case existing of
          Inl e \<Rightarrow> ret ((True, [], [], Some e), lb)
        | Inr (existingFIPID, existingFIPAddress) \<Rightarrow>
            if existingFIPID \<noteq> [] then do {
              err \<leftarrow> updateServiceAnnotationWithRetry E svc AnnotationFloatingIPID existingFIPID;
              if err \<noteq> None then ret ((True, existingFIPID, existingFIPAddress, err), lb)
              else do {
                _ \<leftarrow> Eventf svc ''FloatingIPFound''
                       (''Found existing OpenStack floating IP '' @ existingFIPID @ '' ('' @ existingFIPAddress
                          @ '') for service'');
                lb' \<leftarrow> setCondition E lb ConditionTypeFloatingIPCreated ConditionTrue ''FloatingIPFound''
                         (''Found existing floating IP '' @ existingFIPID @ '' ('' @ existingFIPAddress
                            @ '') for port '' @ portID);
                ret ((False, existingFIPID, existingFIPAddress, None), lb')
              }
            }
            else do {
              r \<leftarrow> Client_CreateFloatingIP osClient (FloatingIPNetworkID (Spec lb)) portID
                     (floatingIPDescription svc) (svcNamespace svc) (svcName svc);
              case r of
                Inl e \<Rightarrow> do {
                  lb' \<leftarrow> setCondition E lb ConditionTypeFloatingIPCreated ConditionFalse
                           ''FloatingIPCreationFailed'' (Error e);
                  ret ((True, [], [], Some e), lb')
                }
              | Inr (newID, newAddress) \<Rightarrow> do {
                  err \<leftarrow> updateServiceAnnotationWithRetry E svc AnnotationFloatingIPID newID;
                  if err \<noteq> None then ret ((True, newID, newAddress, err), lb)
                  else do {
                    _ \<leftarrow> Eventf svc ''FloatingIPCreated''
                           (''Created OpenStack floating IP '' @ newID @ '' ('' @ newAddress @ '') for service'');
                    lb' \<leftarrow> setCondition E lb ConditionTypeFloatingIPCreated ConditionTrue ''FloatingIPCreated''
                             (''Created floating IP '' @ newID @ '' ('' @ newAddress @ '') for port '' @ portID);
                    ret ((False, newID, newAddress, None), lb')
                  }
                }
            }
      })"

text \<open>The tail of \<open>handleFloatingIP\<close>: publish the address, if there is one.\<close>

definition publishFloatingIP :: "env \<Rightarrow> Service \<Rightarrow> string \<Rightarrow> (bool \<times> error option) io" where
  "publishFloatingIP E svc floatingIPAddress =
     (if floatingIPAddress \<noteq> [] then do {
        err \<leftarrow> updateServiceExternalIPs E svc floatingIPAddress;
        if err \<noteq> None then ret (True, err) else ret (False, None)
      }
      else ret (False, None))"

definition handleFloatingIP ::
  "env \<Rightarrow> OpenStackLoadBalancer \<Rightarrow> Service \<Rightarrow> Client \<Rightarrow> string \<Rightarrow>
     ((bool \<times> error option) \<times> OpenStackLoadBalancer) io" where
  "handleFloatingIP E lb svc osClient portID =
     (let floatingIPID = gmap_index (svcAnnotations svc) AnnotationFloatingIPID in
      if floatingIPID \<noteq> [] then do {
        r \<leftarrow> Client_GetFloatingIP osClient floatingIPID;
        case r of
          Inl e \<Rightarrow> ret ((True, Some (ErrorfW (''failed to verify floating IP '' @ floatingIPID) e)), lb)
        | Inr exists \<Rightarrow>
            if \<not> exists then do {
              err \<leftarrow> updateServiceAnnotationWithRetry E svc AnnotationFloatingIPID [];
              ret ((True, err), lb)
            }
            else do {
              d \<leftarrow> Client_GetFloatingIPDetails osClient floatingIPID;
              case d of
                Inl e \<Rightarrow> ret ((True, Some (ErrorfW (''failed to get floating IP details for '' @ floatingIPID) e)), lb)
              | Inr fip \<Rightarrow> do {
                  res \<leftarrow> publishFloatingIP E svc (FIP_FloatingIP fip);
                  ret (res, lb)
                }
            }
      }
      else do {
        ((needsRequeue, _, fipAddr, err), lb') \<leftarrow> createOrFindFloatingIP E lb svc osClient portID;
        if needsRequeue \<or> err \<noteq> None then ret ((needsRequeue, err), lb')
        else do {
          res \<leftarrow> publishFloatingIP E svc fipAddr;
          ret (res, lb')
        }
      })"

definition processService ::
  "env \<Rightarrow> OpenStackLoadBalancer \<Rightarrow> Service \<Rightarrow> Client \<Rightarrow> string \<Rightarrow>
     ((bool \<times> error option) \<times> OpenStackLoadBalancer) io" where
  "processService E lb svc osClient serviceIP =
     (if \<not> IsZero (DeletionTimestamp (svcMeta svc)) then ret ((False, None), lb)
      else do {
        (rq1, err1) \<leftarrow> ensureServiceHasFinalizer E svc;
        if rq1 \<or> err1 \<noteq> None then ret ((rq1, err1), lb)
        else do {
          (rq2, err2) \<leftarrow> ensureServiceHasCredentials E svc lb;
          if rq2 \<or> err2 \<noteq> None then ret ((rq2, err2), lb)
          else do {
            ((rq3, err3), lb3) \<leftarrow> detectNetworkForLB E lb osClient serviceIP;
            if rq3 \<or> err3 \<noteq> None then ret ((rq3, err3), lb3)
            else do {
              ((portID, rq4, err4), lb4) \<leftarrow> ensurePortExists E lb3 svc osClient serviceIP;
              if rq4 \<or> err4 \<noteq> None then ret ((rq4, err4), lb4)
              else if CreateFloatingIP (Spec lb4) then do {
                ((rq5, err5), lb5) \<leftarrow> handleFloatingIP E lb4 svc osClient portID;
                if rq5 \<or> err5 \<noteq> None then ret ((rq5, err5), lb5) else ret ((False, None), lb5)
              }
              else ret ((False, None), lb4)
            }
          }
        }
      })"

section \<open>Deletion of a load balancer\<close>

definition removeLBFinalizer :: "env \<Rightarrow> OpenStackLoadBalancer \<Rightarrow> OpenStackLoadBalancer" where
  "removeLBFinalizer E lb =
     lbSetFinalizers lb (RemoveFinalizer (lib E) (lbFinalizers lb) OpenstackLBFinalizer)"

definition deletionCandidate :: "OpenStackLoadBalancer \<Rightarrow> Service \<Rightarrow> bool" where
  "deletionCandidate lb svc \<longleftrightarrow>
     isServiceMatchingLBClass svc (ClassName (Spec lb))
     \<or> hasAnnotation svc AnnotationPortID \<or> hasAnnotation svc AnnotationFloatingIPID"

text \<open>The loop over the services; its variable is \<open>needsRequeue\<close>.\<close>

definition handleDeletion_step ::
  "env \<Rightarrow> OpenStackLoadBalancer \<Rightarrow> Client \<Rightarrow> bool \<Rightarrow> Service \<Rightarrow> bool io" where
  "handleDeletion_step E lb osClient needsRequeue svc =
     (if deletionCandidate lb svc then do {
        (needs, err) \<leftarrow>
          (if \<not> IsZero (DeletionTimestamp (svcMeta svc))
           then HandleServiceFinalizationWithForce E osClient svc
           else CleanupResourcesForService E osClient svc);
        ret (if err \<noteq> None then True else if needs then True else needsRequeue)
      }
      else ret needsRequeue)"

definition handleDeletion_loop ::
  "env \<Rightarrow> OpenStackLoadBalancer \<Rightarrow> Client \<Rightarrow> bool \<Rightarrow> Service list \<Rightarrow> bool io" where
  "handleDeletion_loop E lb osClient needsRequeue0 svcs =
     foldM (handleDeletion_step E lb osClient) needsRequeue0 svcs"

definition handleDeletion :: "env \<Rightarrow> OpenStackLoadBalancer \<Rightarrow> (Result \<times> error option) io" where
  "handleDeletion E lb = do {
     client \<leftarrow> getOpenStackClient E lb;
     case client of
       Inl _ \<Rightarrow> do {
         updateErr \<leftarrow> updateResourceWithRetry E (LBObj (removeLBFinalizer E lb));
         if updateErr \<noteq> None then ret (noRequeue, updateErr) else ret (noRequeue, None)
       }
     | Inr osClient \<Rightarrow> do {
         svcs \<leftarrow> ListSvcs E;
         case svcs of
           Inl e \<Rightarrow> ret (noRequeue, Some e)
         | Inr items \<Rightarrow> do {
             needsRequeue \<leftarrow> handleDeletion_loop E lb osClient False items;
             if needsRequeue then ret (requeue, None)
             else do {
               err \<leftarrow> updateResourceWithRetry E (LBObj (removeLBFinalizer E lb));
               if err \<noteq> None then ret (noRequeue, err) else ret (noRequeue, None)
             }
           }
       }
   }"

section \<open>The reconcile loop\<close>

text \<open>The services the main loop processes: the guards of its \<open>continue\<close> statements.\<close>

definition eligibleService :: "OpenStackLoadBalancer \<Rightarrow> Service \<Rightarrow> bool" where
  "eligibleService lb svc \<longleftrightarrow>
     \<not> (\<not> isServiceMatchingLBClass svc (ClassName (Spec lb)) \<or> svcType svc \<noteq> ''LoadBalancer'')
     \<and> IsZero (DeletionTimestamp (svcMeta svc))
     \<and> \<not> (Ingress svc = [] \<or> hd (Ingress svc) = [])"

text \<open>Its variables: the load balancer, \<open>processedAtLeastOne\<close>, \<open>lastError\<close>, \<open>needsRequeue\<close>.\<close>

record loop_state =
  ls_lb :: OpenStackLoadBalancer
  processedAtLeastOne :: bool
  lastError :: "error option"
  ls_needsRequeue :: bool

definition Reconcile_loop ::
  "env \<Rightarrow> Client \<Rightarrow> loop_state \<Rightarrow> Service list \<Rightarrow> loop_state io" where
  "Reconcile_loop E osClient st0 svcs =
     foldM (\<lambda>st svc.
       if \<not> eligibleService (ls_lb st) svc then ret st
       else do {
         ((rq, err), lb') \<leftarrow> processService E (ls_lb st) svc osClient (hd (Ingress svc));
         ret (st\<lparr>ls_lb := lb',
                 lastError := (if err \<noteq> None then err else lastError st),
                 ls_needsRequeue := (if rq then True else ls_needsRequeue st),
                 processedAtLeastOne := True\<rparr>)
       }) st0 svcs"

text \<open>The status set after the loop.\<close>

definition Reconcile_status :: "env \<Rightarrow> loop_state \<Rightarrow> OpenStackLoadBalancer io" where
  "Reconcile_status E st =
     (let lb = ls_lb st in
      if \<not> processedAtLeastOne st then
        setCondition E lb ConditionTypeReady ConditionFalse ''NoMatchingService''
          (''No service found with LoadBalancer type and class '' @ ClassName (Spec lb))
      else (case lastError st of
              Some e \<Rightarrow> setCondition E lb ConditionTypeReady ConditionFalse ''ProcessingError'' (Error e)
            | None \<Rightarrow> do {
                lb' \<leftarrow> setCondition E lb ConditionTypeReady ConditionTrue ''ResourcesReady''
                         ''All OpenStack resources are ready'';
                ret (lb'\<lparr>Status := (Status lb')\<lparr>Ready := True\<rparr>\<rparr>)
              }))"

definition initConditions :: "OpenStackLoadBalancer \<Rightarrow> OpenStackLoadBalancer" where
  "initConditions lb =
     (if Conditions (Status lb) = None then lb\<lparr>Status := (Status lb)\<lparr>Conditions := Some []\<rparr>\<rparr> else lb)"

definition addLBFinalizer :: "env \<Rightarrow> OpenStackLoadBalancer \<Rightarrow> OpenStackLoadBalancer" where
  "addLBFinalizer E lb =
     lbSetFinalizers lb (AddFinalizer (lib E) (lbFinalizers lb) OpenstackLBFinalizer)"

text \<open>The part of \<open>Reconcile\<close> behind the deletion check.\<close>

definition reconcileLB :: "env \<Rightarrow> OpenStackLoadBalancer \<Rightarrow> (Result \<times> error option) io" where
  "reconcileLB E lb = do {
     client \<leftarrow> getOpenStackClient E lb;
     case client of
       Inl e \<Rightarrow> do {
         lb' \<leftarrow> setCondition E lb ConditionTypeReady ConditionFalse ''OpenStackClientError'' (Error e);
         (err, _) \<leftarrow> updateStatusWithRetry E lb';
         ret (noRequeue, err)
       }
     | Inr osClient \<Rightarrow> do {
         svcs \<leftarrow> ListSvcs E;
         case svcs of
           Inl e \<Rightarrow> ret (noRequeue, Some e)
         | Inr items \<Rightarrow> do {
             st \<leftarrow> Reconcile_loop E osClient
                    \<lparr>ls_lb = lb, processedAtLeastOne = False, lastError = None, ls_needsRequeue = False\<rparr> items;
             lb' \<leftarrow> Reconcile_status E st;
             (err, _) \<leftarrow> updateStatusWithRetry E lb';
             if err \<noteq> None then ret (noRequeue, err)
             else if ls_needsRequeue st then ret (requeue, None)
             else ret (noRequeue, None)
           }
       }
   }"

definition Reconcile :: "env \<Rightarrow> Request \<Rightarrow> (Result \<times> error option) io" where
  "Reconcile E req =
     (if strings_HasPrefix (nnName req) serviceHandlerPrefix then reconcileService E req
      else do {
        r \<leftarrow> GetLB E req;
        case r of
          Inl e \<Rightarrow> if IsNotFound (lib E) e then ret (noRequeue, None) else ret (noRequeue, Some e)
        | Inr lb0 \<Rightarrow>
            (let lb = initConditions lb0 in
             if \<not> ContainsFinalizer (lib E) (lbFinalizers lb) OpenstackLBFinalizer
                \<and> IsZero (DeletionTimestamp (lbMeta lb))
             then do {
               err \<leftarrow> updateResourceWithRetry E (LBObj (addLBFinalizer E lb));
               if err \<noteq> None then ret (noRequeue, err) else ret (noRequeue, None)
             }
             else if \<not> IsZero (DeletionTimestamp (lbMeta lb)) then handleDeletion E lb
             else reconcileLB E lb)
      })"

section \<open>Audited traces\<close>


context audited_client begin

lemma safe_ensureServiceHasFinalizer:
  "backoff_spec (lib E) \<Longrightarrow> emits (ensureServiceHasFinalizer E svc) (\<lambda>_. P)"
  unfolding ensureServiceHasFinalizer_def by (intro safe_intros safe_utils)

lemma safe_ensureServiceHasCredentials:
  "backoff_spec (lib E) \<Longrightarrow> emits (ensureServiceHasCredentials E svc lb) (\<lambda>_. P)"
  unfolding ensureServiceHasCredentials_def by (intro safe_intros safe_utils)

lemma safe_detectNetworkForLB: "emits (detectNetworkForLB E lb cl ip) (\<lambda>_. P)"
  unfolding detectNetworkForLB_def by (intro safe_intros safe_client safe_utils)

lemma safe_ensurePortExists:
  "backoff_spec (lib E) \<Longrightarrow> emits (ensurePortExists E lb svc cl ip) (\<lambda>_. P)"
  unfolding ensurePortExists_def by (intro safe_intros safe_client safe_utils safe_calls)

lemma safe_createOrFindFloatingIP:
  "backoff_spec (lib E) \<Longrightarrow> emits (createOrFindFloatingIP E lb svc cl portID) (\<lambda>_. P)"
  unfolding createOrFindFloatingIP_def by (intro safe_intros safe_client safe_utils safe_calls)

lemma safe_publishFloatingIP:
  "backoff_spec (lib E) \<Longrightarrow> emits (publishFloatingIP E svc addr) (\<lambda>_. P)"
  unfolding publishFloatingIP_def by (intro safe_intros safe_utils)

lemma safe_handleFloatingIP:
  "backoff_spec (lib E) \<Longrightarrow> emits (handleFloatingIP E lb svc cl portID) (\<lambda>_. P)"
  unfolding handleFloatingIP_def
  by (intro safe_intros safe_client safe_utils safe_publishFloatingIP safe_createOrFindFloatingIP)

lemma safe_processService:
  "backoff_spec (lib E) \<Longrightarrow> emits (processService E lb svc cl ip) (\<lambda>_. P)"
  unfolding processService_def
  by (intro safe_intros safe_ensureServiceHasFinalizer safe_ensureServiceHasCredentials
      safe_detectNetworkForLB safe_ensurePortExists safe_handleFloatingIP)

lemma safe_Reconcile_loop:
  "backoff_spec (lib E) \<Longrightarrow> emits (Reconcile_loop E cl st svcs) (\<lambda>_. P)"
  unfolding Reconcile_loop_def by (intro safe_intros safe_processService)

lemma safe_handleDeletion_loop:
  "retry_spec (lib E) \<Longrightarrow> emits (handleDeletion_loop E lb cl rq svcs) (\<lambda>_. P)"
  unfolding handleDeletion_loop_def handleDeletion_step_def
  by (intro safe_intros safe_HandleServiceFinalizationWithForce safe_CleanupResourcesForService)

end

context audited begin

lemma safe_Reconcile_status: "emits (Reconcile_status E st) (\<lambda>_. P)"
  unfolding Reconcile_status_def by (intro safe_intros safe_utils)

end

context audited_impl begin

lemma getOpenStackClient_returns: "returns (getOpenStackClient E lb) (is_impl E)"
  unfolding getOpenStackClient_def by (rule NewClient_returns)

lemma safe_handleDeletion:
  assumes "retry_spec (lib E)"
  shows "emits (handleDeletion E lb) (\<lambda>_. P)"
  unfolding handleDeletion_def
  by (rule safe_impl_bind [OF safe_getOpenStackClient getOpenStackClient_returns]; simp only: sum.case)
    (intro safe_intros safe_utils safe_calls assms retry_spec_backoff
      audited_client.safe_handleDeletion_loop [OF impl_audited])+

lemma safe_reconcileLB:
  assumes "backoff_spec (lib E)"
  shows "emits (reconcileLB E lb) (\<lambda>_. P)"
  unfolding reconcileLB_def
  by (rule safe_impl_bind [OF safe_getOpenStackClient getOpenStackClient_returns]; simp only: sum.case)
    (intro safe_intros safe_utils safe_calls assms safe_Reconcile_status
      audited_client.safe_Reconcile_loop [OF impl_audited])+

lemma safe_Reconcile:
  assumes "retry_spec (lib E)"
  shows "emits (Reconcile E req) (\<lambda>_. P)"
  unfolding Reconcile_def
  by (intro safe_intros safe_calls safe_utils safe_reconcileService safe_handleDeletion
      safe_reconcileLB assms retry_spec_backoff)

end

section \<open>The finalizer comes first\<close>

interpretation neutral_only: audited "list_all neutral"
  by unfold_locales simp

text \<open>
  C10: \<open>processService\<close> changes nothing in OpenStack, and nothing in the load balancer, for a service
  that is being deleted or does not have the operator's finalizer yet: resources are only created
  once the finalizer that will trigger their cleanup is stored.
\<close>

theorem processService_needs_finalizer:
  assumes "backoff_spec (lib E)"
    and "svcTerminating svc \<or> \<not> ContainsFinalizer (lib E) (svcFinalizers svc) ServiceFinalizer"
    and "run_state (processService E lb svc cl ip) h = (r, h')"
  shows "\<exists>ev. h' = h @ ev \<and> list_all neutral ev \<and> snd r = lb"
proof (cases "svcTerminating svc")
  case True
  with assms(3) show ?thesis by (auto simp: processService_def)
next
  case False
  obtain err hu where u: "run_state (updateResourceWithRetry E (SvcObj (addServiceFinalizer E svc))) h = (err, hu)"
    by (metis prod.collapse)
  obtain ev where "hu = h @ ev" "list_all neutral ev"
    using emitsD [OF neutral_only.safe_updateResourceWithRetry [OF assms(1)] u] by blast
  with False assms(2,3) u show ?thesis
    by (auto simp: processService_def ensureServiceHasFinalizer_def split: if_splits)
qed

theorem processService_needs_finalizer_witness:
  "\<exists>r h' ev. run_state (processService sample_env sample_lb sample_svc (ClientImpl sample_env sample_net) ''10.0.0.5'') [] = (r, h')
     \<and> h' = [] @ ev \<and> list_all neutral ev \<and> snd r = sample_lb"
proof -
  obtain r h' where r: "run_state (processService sample_env sample_lb sample_svc (ClientImpl sample_env sample_net) ''10.0.0.5'') [] = (r, h')"
    by (metis prod.collapse)
  have "\<not> ContainsFinalizer (lib sample_env) (svcFinalizers sample_svc) ServiceFinalizer"
    by (simp add: ref_library_def sample_svc_def sample_meta_def)
  with processService_needs_finalizer [OF _ _ r] r show ?thesis by simp
qed

text \<open>
  Reconciling a load balancer that has no finalizer yet and is not being deleted only stores it
  with the finalizer added; nothing else is read or written in that pass.
\<close>

theorem new_lb_only_gets_finalizer:
  assumes "backoff_spec (lib E)" and "\<not> strings_HasPrefix (nnName req) serviceHandlerPrefix"
    and "k8s_GetLB (k8s E) h req = Inr lb"
    and "\<not> lbTerminating lb" and "\<not> ContainsFinalizer (lib E) (lbFinalizers lb) OpenstackLBFinalizer"
    and "run_state (Reconcile E req) h = ((res, err), h')"
  shows "res = noRequeue \<and> (\<exists>ev. h' = h @ EGetLB req (Inr lb) # ev
     \<and> object_write (LBObj (addLBFinalizer E (initConditions lb))) ev)"
proof -
  have i: "lbMeta (initConditions lb) = lbMeta lb" by (simp add: initConditions_def)
  let ?h = "h @ [EGetLB req (Inr lb)]"
  obtain uerr hu where u: "run_state (updateResourceWithRetry E (LBObj (addLBFinalizer E (initConditions lb)))) ?h = (uerr, hu)"
    by (metis prod.collapse)
  obtain ev where "hu = ?h @ ev" "object_write (LBObj (addLBFinalizer E (initConditions lb))) ev"
    using emitsD [OF updateResourceWithRetry_emits [OF assms(1)] u] by blast
  with assms(2-6) u i show ?thesis
    by (auto simp: Reconcile_def GetLB_def Let_def split: if_splits)
qed

theorem new_lb_only_gets_finalizer_witness:
  "\<exists>res err h'. run_state (Reconcile sample_env (lbKey sample_lb)) [] = ((res, err), h')
     \<and> res = noRequeue \<and> (\<exists>ev. h' = [] @ EGetLB (lbKey sample_lb) (Inr sample_lb) # ev
     \<and> object_write (LBObj (addLBFinalizer sample_env (initConditions sample_lb))) ev)"
proof -
  obtain res err h' where r: "run_state (Reconcile sample_env (lbKey sample_lb)) [] = ((res, err), h')"
    by (metis prod.collapse)
  have "\<not> strings_HasPrefix (nnName (lbKey sample_lb)) serviceHandlerPrefix"
    by (simp add: strings_HasPrefix_def serviceHandlerPrefix_def lbKey_def sample_lb_def sample_meta_def)
  moreover have "k8s_GetLB (k8s sample_env) [] (lbKey sample_lb) = Inr sample_lb" by (simp add: sample_k8s_def)
  moreover have "\<not> lbTerminating sample_lb"
    "\<not> ContainsFinalizer (lib sample_env) (lbFinalizers sample_lb) OpenstackLBFinalizer"
    by (simp_all add: sample_lb_def sample_meta_def IsZero_def ref_library_def)
  ultimately show ?thesis using new_lb_only_gets_finalizer [OF _ _ _ _ _ r] r by simp
qed

section \<open>Creation and cleanup agree\<close>

lemma strings_Contains_mid: "strings_Contains s t \<Longrightarrow> strings_Contains (p @ s @ q) t"
  by (simp add: strings_Contains_append1 strings_Contains_append2)

lemma portDescription_identifies: "strings_Contains (portDescription svc) (serviceIdentifier svc)"
  using strings_Contains_infix [of "''Port created for Kubernetes service ''" "serviceIdentifier svc"
      "'' by OpenStack LB Operator''"]
  by (simp only: portDescription_def serviceIdentifier_def append_assoc)

lemma floatingIPDescription_identifies: "strings_Contains (floatingIPDescription svc) (serviceIdentifier svc)"
  using strings_Contains_infix [of "''Floating IP for Kubernetes service ''" "serviceIdentifier svc"
      "'' by OpenStack LB Operator''"]
  by (simp only: floatingIPDescription_def serviceIdentifier_def append_assoc)

text \<open>
  A creation call is recoverable for a service when every resource that carries the description of
  the call is selected by the cleanup of that service, whatever the annotations say.
\<close>

fun create_selected :: "Service \<Rightarrow> event \<Rightarrow> bool" where
  "create_selected svc (EPortCreate c opts r) = 
     (\<forall>p pid. Port_Description p = pco_Description opts \<longrightarrow> shouldDeletePort svc pid p)"
| "create_selected svc (EFipCreate c opts r) =
     (\<forall>f pid fid. FIP_Description f = fco_Description opts \<longrightarrow> shouldDeleteFloatingIP svc pid fid f)"
| "create_selected svc _ = True"

interpretation selected: audited "list_all (create_selected svc)" for svc
proof unfold_locales
  fix e assume "neutral e"
  then show "list_all (create_selected svc) [e]" by (cases e) simp_all
qed

lemma CreatePort_selected:
  "emits (CreatePort E c net sub pname ip (portDescription svc) ns name) (\<lambda>_. list_all (create_selected svc))"
  unfolding CreatePort_def Let_def PortCreate_def TagsReplaceAll_def
  by (intro list_all_prop.safe_intros list_all_prop.safe_call)
    (simp_all add: shouldDeletePort_def portDescription_identifies)

lemma CreateFloatingIP_selected:
  "emits (CreateFloatingIP_impl E c net i (floatingIPDescription svc) ns name) (\<lambda>_. list_all (create_selected svc))"
  unfolding CreateFloatingIP_impl_def Let_def FipCreate_def TagsReplaceAll_def
  by (intro list_all_prop.safe_intros list_all_prop.safe_call)
    (simp_all add: shouldDeleteFloatingIP_def floatingIPDescription_identifies)

lemmas ClientImpl_methods =
  arg_cong [OF ClientImpl_def, of Client_DetectNetworkForIP, unfolded Client.select_convs]
  arg_cong [OF ClientImpl_def, of Client_GetPort, unfolded Client.select_convs]
  arg_cong [OF ClientImpl_def, of Client_CreatePort, unfolded Client.select_convs]
  arg_cong [OF ClientImpl_def, of Client_GetFloatingIP, unfolded Client.select_convs]
  arg_cong [OF ClientImpl_def, of Client_CreateFloatingIP, unfolded Client.select_convs]
  arg_cong [OF ClientImpl_def, of Client_GetFloatingIPDetails, unfolded Client.select_convs]
  arg_cong [OF ClientImpl_def, of Client_GetFloatingIPByPortID, unfolded Client.select_convs]

lemma processService_selected:
  assumes "backoff_spec (lib E)"
  shows "emits (processService E lb svc (ClientImpl E c) ip) (\<lambda>_. list_all (create_selected svc))"
  unfolding processService_def ensureServiceHasFinalizer_def ensureServiceHasCredentials_def
    detectNetworkForLB_def ensurePortExists_def handleFloatingIP_def createOrFindFloatingIP_def publishFloatingIP_def
    ClientImpl_methods
  by (intro list_all_prop.safe_intros selected.safe_calls selected.safe_utils selected.safe_GetPort assms
    selected.safe_GetFloatingIP selected.safe_GetFloatingIPDetails selected.safe_GetFloatingIPByPortID
    selected.safe_DetectNetworkForIP CreatePort_selected CreateFloatingIP_selected)

text \<open>
  C11: every port and floating IP \<open>processService\<close> creates for a service carries a description by
  which the cleanup of that service selects it, even if the annotation with its ID was never stored.
\<close>

theorem created_resources_are_selected:
  assumes "backoff_spec (lib E)"
    and "run_state (processService E lb svc (ClientImpl E c) ip) h = (r, h')"
  shows "\<exists>ev. h' = h @ ev \<and> list_all (create_selected svc) ev"
  using emitsD [OF processService_selected [OF assms(1)] assms(2)] by blast

theorem created_resources_are_selected_witness:
  "\<exists>r h' ev. run_state (processService sample_env sample_lb sample_svc (ClientImpl sample_env sample_net) ''10.0.0.5'') [] = (r, h')
     \<and> h' = [] @ ev \<and> list_all (create_selected sample_svc) ev"
proof -
  obtain r h' where r: "run_state (processService sample_env sample_lb sample_svc (ClientImpl sample_env sample_net) ''10.0.0.5'') [] = (r, h')"
    by (metis prod.collapse)
  with created_resources_are_selected [OF _ r] show ?thesis by simp
qed

lemma portDescription_operator: "strings_Contains (portDescription svc) ''by OpenStack LB Operator''"
  using strings_Contains_infix [of "''Port created for Kubernetes service '' @ svcNamespace svc @ ''/'' @ svcName svc @ '' ''"
      "''by OpenStack LB Operator''" "[]"]
  by (simp add: portDescription_def)

text \<open>
  C39: the selection is too wide. A port the operator created for one service is selected by the
  cleanup of every service whose name is a substring of the first one's name, in any namespace.
\<close>

theorem substring_over_selection:
  assumes "strings_Contains (svcName other) (svcName svc)"
    and "Port_Description p = portDescription other"
  shows "shouldDeletePort svc pid p"
proof -
  have "strings_Contains (portDescription other) (svcName svc)"
    using strings_Contains_mid [OF assms(1), of "''Port created for Kubernetes service '' @ svcNamespace other @ ''/''"
        "'' by OpenStack LB Operator''"]
    by (simp only: portDescription_def append_assoc)
  then show ?thesis using assms(2) portDescription_operator by (simp add: shouldDeletePort_def)
qed

definition other_svc :: Service where
  "other_svc = sample_svc\<lparr>svcMeta := (sample_meta ''my-web-api'')\<lparr>Namespace := ''prod''\<rparr>\<rparr>"

theorem substring_over_selection_witness:
  "shouldDeletePort sample_svc [] \<lparr>Port_ID = ''p2'', Port_Name = portNameFor other_svc,
     Port_Description = portDescription other_svc\<rparr>"
  by (rule substring_over_selection [where other = other_svc])
    (simp_all add: other_svc_def sample_svc_def sample_meta_def)

section \<open>Deleting a load balancer\<close>

lemma cleanup_complete_mono: "cleanup_complete E c svc ev \<Longrightarrow> set ev \<subseteq> set ev' \<Longrightarrow> cleanup_complete E c svc ev'"
  unfolding cleanup_complete_def by (elim ex_forward) (auto split: prod.splits, blast+)

lemma handleDeletion_step_emits:
  assumes "retry_spec (lib E)"
  shows "emits (handleDeletion_step E lb (ClientImpl E c) rq svc)
     (\<lambda>rq' ev. \<not> rq' \<longrightarrow> \<not> rq \<and> (deletionCandidate lb svc \<and> \<not> svcTerminating svc \<longrightarrow> cleanup_complete E c svc ev))"
proof -
  have b: "backoff_spec (lib E)" using assms by auto
  have "emits (HandleServiceFinalizationWithForce E (ClientImpl E c) svc) (\<lambda>_ _. True)"
    by (rule any_impl.safe_HandleServiceFinalizationWithForce [OF assms])
  moreover have "emits (CleanupResourcesForService E (ClientImpl E c) svc)
      (\<lambda>r ev. r = (False, None) \<longrightarrow> cleanup_complete E c svc ev)"
    by (rule emits_weaken [OF cleanup_emits [OF b]]) (simp add: cleanup_post_def)
  ultimately show ?thesis
    unfolding handleDeletion_step_def
    by (auto intro!: emits_bind emits_return elim!: emits_weaken split: prod.split if_splits)
qed

lemma handleDeletion_loop_emits:
  assumes "retry_spec (lib E)"
  shows "emits (handleDeletion_loop E lb (ClientImpl E c) rq svcs)
     (\<lambda>rq' ev. \<not> rq' \<longrightarrow> \<not> rq \<and>
        (\<forall>svc \<in> set svcs. deletionCandidate lb svc \<and> \<not> svcTerminating svc \<longrightarrow> cleanup_complete E c svc ev))"
  unfolding handleDeletion_loop_def
proof (induction svcs arbitrary: rq)
  case Nil
  show ?case by (auto intro: emits_return)
next
  case (Cons svc svcs)
  show ?case unfolding foldM.simps
    by (rule emits_bind_weaken [OF handleDeletion_step_emits [OF assms]], rule emits_weaken [OF Cons.IH])
      (auto intro: cleanup_complete_mono)
qed

text \<open>While the services are cleaned up no load balancer is written.\<close>

fun lb_write :: "event \<Rightarrow> bool" where
  "lb_write (EUpdate obj r) = (case obj of LBObj lb \<Rightarrow> True | SvcObj svc \<Rightarrow> False)"
| "lb_write _ = False"

lemma object_write_svc_no_lb: "object_write (SvcObj svc) ev \<Longrightarrow> list_all (\<lambda>e. \<not> lb_write e) ev"
proof (induction "SvcObj svc" ev rule: object_write.induct)
  case (2 e es)
  from "2.prems" have e: "\<not> lb_write e" by (cases e) simp_all
  from "2.prems" "2.hyps" show ?case
    by (auto simp: e split: option.splits sum.splits list.splits event.splits)
qed simp

lemma no_lb_client:
  "emits (GetAllFloatingIPs E c) (\<lambda>_. list_all (\<lambda>e. \<not> lb_write e))" "emits (GetAllPorts E c) (\<lambda>_. list_all (\<lambda>e. \<not> lb_write e))"
  "emits (DeleteFloatingIP E c i) (\<lambda>_. list_all (\<lambda>e. \<not> lb_write e))" "emits (DeletePort E c i) (\<lambda>_. list_all (\<lambda>e. \<not> lb_write e))"
  unfolding GetAllFloatingIPs_def GetAllPorts_def DeleteFloatingIP_def DeletePort_def deleteResource_def
    checkFloatingIPExists_def checkPortExists_def call_defs
  by (intro list_all_prop.safe_intros list_all_prop.safe_call; simp)+

interpretation no_lb_update: retried "list_all (\<lambda>e. \<not> lb_write e)" "plain_attempt (updateMultipleServiceAnnotations_attempt E svc kvs)"
    "\<lambda>_. True" "\<lambda>_ _. True" 2 for E svc kvs
  by unfold_locales
    (auto simp: plain_attempt_def updateMultipleServiceAnnotations_attempt_def GetSvc_def Update_def Let_def
      intro!: emits_bind emits_call emits_return split: sum.split)

lemma no_lb_updateMultiple:
  assumes "backoff_spec (lib E)"
  shows "emits (updateMultipleServiceAnnotations E svc kvs) (\<lambda>_. list_all (\<lambda>e. \<not> lb_write e))"
  unfolding updateMultipleServiceAnnotations_def backoff_plain_def ExponentialBackoff_eq [OF assms]
  by (rule emits_bind_weaken [OF no_lb_update.retry_steps_outcome]) (auto intro!: emits_return)

lemma no_lb_updateResource:
  "backoff_spec (lib E) \<Longrightarrow> emits (updateResourceWithRetry E (SvcObj svc)) (\<lambda>_. list_all (\<lambda>e. \<not> lb_write e))"
  by (rule emits_weaken [OF updateResourceWithRetry_emits]) (auto intro: object_write_svc_no_lb)

lemma no_lb_force:
  assumes "conflict_spec (lib E)"
  shows "emits (forceFinalizerRemoval E svc) (\<lambda>_. list_all (\<lambda>e. \<not> lb_write e))"
proof -
  have "emits (conflict_steps f n (PatchSvc E svc p)) (\<lambda>_. list_all (\<lambda>e. \<not> lb_write e))" for f n p
    by (rule emits_weaken [OF conflict_steps_patches]) (auto simp: list_all_iff)
  then show ?thesis
    by (auto simp: forceFinalizerRemoval_def RetryOnConflict_eq [OF assms] intro: emits_return)
qed

lemma handleDeletion_loop_no_lb:
  assumes "retry_spec (lib E)"
  shows "emits (handleDeletion_loop E lb (ClientImpl E c) rq svcs) (\<lambda>_. list_all (\<lambda>e. \<not> lb_write e))"
  unfolding handleDeletion_loop_def handleDeletion_step_def HandleServiceFinalizationWithForce_def
    CleanupResourcesForService_def deleteFloatingIPs_loop_def deletePorts_loop_def ClientImpl_def Client.select_convs
  by (intro list_all_prop.safe_intros no_lb_client no_lb_updateMultiple no_lb_updateResource no_lb_force
      retry_spec_backoff retry_spec_conflict assms)

text \<open>
  C8: when the deletion of a load balancer ends successfully and there was an OpenStack client, the
  services were listed and the cleanup of every live one of its class, and of every live one with the
  operator's annotations, was complete. During these cleanups no load balancer is written; only after
  them the load balancer is written with exactly the operator's finalizer removed, and in the end that
  write is accepted or the load balancer is found to be gone.
\<close>

theorem lb_finalizer_removed_after_cleanup:
  assumes "retry_spec (lib E)" and "finalizer_spec (lib E)"
    and "run_state (getOpenStackClient E lb) h = (Inr (ClientImpl E c), h1)"
    and "run_state (handleDeletion E lb) h = ((noRequeue, None), h')"
  shows "\<exists>svcs ev1 ev2. h' = h1 @ EListSvcs (Inr svcs) # ev1 @ ev2
     \<and> (\<forall>svc \<in> set svcs. deletionCandidate lb svc \<and> \<not> svcTerminating svc \<longrightarrow> cleanup_complete E c svc ev1)
     \<and> list_all (\<lambda>e. \<not> lb_write e) ev1
     \<and> finalizers_written (lib E) (LBObj lb) (set (lbFinalizers lb) - {''openstack.jacero.io/finalizer''}) ev2"
proof -
  have b: "backoff_spec (lib E)" using assms(1) by auto
  have nr: "requeue \<noteq> noRequeue" by (simp add: requeue_def noRequeue_def requeueDelay_def)
  from assms(3,4) obtain svcs where s: "k8s_ListSvcs (k8s E) h1 = Inr svcs"
    by (auto simp: handleDeletion_def ListSvcs_def split: sum.splits)
  let ?h = "h1 @ [EListSvcs (Inr svcs)]"
  obtain rq hl where l: "run_state (handleDeletion_loop E lb (ClientImpl E c) False svcs) ?h = (rq, hl)"
    by (metis prod.collapse)
  obtain ev1 where ev1: "hl = ?h @ ev1" "list_all (\<lambda>e. \<not> lb_write e) ev1"
    "\<not> rq \<longrightarrow> (\<forall>svc \<in> set svcs. deletionCandidate lb svc \<and> \<not> svcTerminating svc \<longrightarrow> cleanup_complete E c svc ev1)"
    using emitsD [OF emits_conj [OF handleDeletion_loop_emits [OF assms(1)] handleDeletion_loop_no_lb [OF assms(1)]] l] by blast
  have w: "LBObj (removeLBFinalizer E lb) = with_finalizers (LBObj lb) (RemoveFinalizer (lib E) (lbFinalizers lb) OpenstackLBFinalizer)"
    by (simp add: removeLBFinalizer_def lbSetFinalizers_def)
  obtain uerr hu where u: "run_state (updateResourceWithRetry E (LBObj (removeLBFinalizer E lb))) hl = (uerr, hu)"
    by (metis prod.collapse)
  obtain ev2 where ev2: "hu = hl @ ev2"
    "uerr = None \<longrightarrow> finalizers_written (lib E) (LBObj lb) (set (lbFinalizers lb) - {''openstack.jacero.io/finalizer''}) ev2"
    using emitsD [OF updateResource_finalizers [OF b] u [unfolded w]]
    by (auto simp: set_RemoveFinalizer [OF assms(2)] OpenstackLBFinalizer_def)
  have rq: "\<not> rq" using assms(3,4) s l nr by (auto simp: handleDeletion_def ListSvcs_def)
  with assms(3,4) s l u have "h' = hu \<and> uerr = None" by (auto simp: handleDeletion_def ListSvcs_def split: if_splits)
  with ev1 ev2 rq show ?thesis by auto
qed

lemma lb_client_sample:
  "\<exists>ev. run_state (getOpenStackClient sample_env lb) h = (Inr (ClientImpl sample_env sample_net), h @ ev)"
  unfolding getOpenStackClient_def by (rule NewClient_sample) (simp_all add: sample_k8s_def)

definition finalized_lb :: OpenStackLoadBalancer where
  "finalized_lb = lbSetFinalizers sample_lb [''other'', ''openstack.jacero.io/finalizer'']"

lemma handleDeletion_sample:
  assumes "run_state (getOpenStackClient sample_env finalized_lb) [] = (Inr (ClientImpl sample_env sample_net), h1)"
  shows "\<exists>h'. run_state (handleDeletion sample_env finalized_lb) [] = ((noRequeue, None), h')"
proof -
  have l: "k8s_ListSvcs sample_k8s h = Inr [sample_svc]" for h by (simp add: sample_k8s_def)
  have d: "deletionCandidate finalized_lb sample_svc" "IsZero (DeletionTimestamp (svcMeta sample_svc))"
    by (simp_all add: deletionCandidate_def isServiceMatchingLBClass_def sample_svc_def finalized_lb_def
        sample_lb_def lbSetFinalizers_def sample_meta_def IsZero_def)
  let ?h = "(h1 @ [EListSvcs (Inr [sample_svc])]) @ cleanup_trace"
  obtain e where "run_state (updateResourceWithRetry sample_env (LBObj (removeLBFinalizer sample_env finalized_lb))) ?h
      = (None, ?h @ e)"
    using updateResource_sample [of sample_env "LBObj (removeLBFinalizer sample_env finalized_lb)" ?h]
    by (auto simp: sample_k8s_def)
  with assms show ?thesis
    by (simp add: handleDeletion_def ListSvcs_def l handleDeletion_loop_def handleDeletion_step_def d cleanup_sample)
qed

theorem lb_finalizer_removed_after_cleanup_witness:
  "\<exists>h1 h' svcs ev1 ev2. run_state (handleDeletion sample_env finalized_lb) [] = ((noRequeue, None), h')
     \<and> h' = h1 @ EListSvcs (Inr svcs) # ev1 @ ev2
     \<and> (\<forall>svc \<in> set svcs. deletionCandidate finalized_lb svc \<and> \<not> svcTerminating svc \<longrightarrow>
          cleanup_complete sample_env sample_net svc ev1)
     \<and> list_all (\<lambda>e. \<not> lb_write e) ev1
     \<and> finalizers_written (lib sample_env) (LBObj finalized_lb) (set (lbFinalizers finalized_lb) - {''openstack.jacero.io/finalizer''}) ev2"
proof -
  obtain h1 where c: "run_state (getOpenStackClient sample_env finalized_lb) [] = (Inr (ClientImpl sample_env sample_net), h1)"
    using lb_client_sample by blast
  obtain h' where d: "run_state (handleDeletion sample_env finalized_lb) [] = ((noRequeue, None), h')"
    using handleDeletion_sample [OF c] by blast
  have "retry_spec (lib sample_env)" "finalizer_spec (lib sample_env)" by simp_all
  from lb_finalizer_removed_after_cleanup [OF this c d] d show ?thesis by blast
qed

section \<open>Readiness\<close>

text \<open>
  C37: after the loop over the services, the condition \<open>Ready\<close> says whether a service was processed
  and whether the last error is nil; the field \<open>Ready\<close> of the status is set in the good case and
  keeps its old value in the others, so it is never reset.
\<close>

theorem Reconcile_status_ready:
  "case run_state (Reconcile_status E st) h of (lb', h') \<Rightarrow>
     Ready (Status lb') = (Ready (Status (ls_lb st)) \<or> processedAtLeastOne st \<and> lastError st = None)
     \<and> cond_map lb' ConditionTypeReady =
         Some (if \<not> processedAtLeastOne st
               then (ConditionFalse, ''NoMatchingService'',
                     ''No service found with LoadBalancer type and class '' @ ClassName (Spec (ls_lb st)))
               else case lastError st of
                      Some e \<Rightarrow> (ConditionFalse, ''ProcessingError'', Error e)
                    | None \<Rightarrow> (ConditionTrue, ''ResourcesReady'', ''All OpenStack resources are ready''))
     \<and> Spec lb' = Spec (ls_lb st)"
  by (auto simp: Reconcile_status_def setCondition_run cond_map_def cond_list_def [of "_\<lparr>Status := _\<rparr>"] setCondition_loop_map Let_def
    split: option.split)

text \<open>
  C40: a load balancer is reported ready, with all resources ready, although the pass only added the
  finalizer to its only service and no resource was created.
\<close>

theorem ready_before_resources:
  assumes "backoff_spec (lib E)" and "eligibleService lb svc"
    and "\<not> ContainsFinalizer (lib E) (svcFinalizers svc) ServiceFinalizer"
    and "fst (run_state (updateResourceWithRetry E (SvcObj (addServiceFinalizer E svc))) h) = None"
    and "run_state (Reconcile_loop E cl \<lparr>ls_lb = lb, processedAtLeastOne = False, lastError = None, ls_needsRequeue = False\<rparr> [svc]
             \<bind> Reconcile_status E) h = (lb', h')"
  shows "Ready (Status lb') \<and> (\<exists>ev. h' = h @ ev \<and> list_all neutral ev)"
proof -
  obtain hu where u: "run_state (updateResourceWithRetry E (SvcObj (addServiceFinalizer E svc))) h = (None, hu)"
    using assms(4) by (metis prod.collapse)
  obtain ev where "hu = h @ ev" "list_all neutral ev"
    using emitsD [OF neutral_only.safe_updateResourceWithRetry [OF assms(1)] u] by blast
  moreover have "IsZero (DeletionTimestamp (svcMeta svc))" using assms(2) by (simp add: eligibleService_def)
  ultimately show ?thesis using assms(2,3,5) u
    by (auto simp: Reconcile_loop_def processService_def ensureServiceHasFinalizer_def Reconcile_status_def setCondition_run)
qed

theorem ready_before_resources_witness:
  "\<exists>lb' h'. run_state (Reconcile_loop sample_env (ClientImpl sample_env sample_net)
        \<lparr>ls_lb = sample_lb, processedAtLeastOne = False, lastError = None, ls_needsRequeue = False\<rparr> [sample_svc]
        \<bind> Reconcile_status sample_env) [] = (lb', h')
     \<and> Ready (Status lb') \<and> (\<exists>ev. h' = [] @ ev \<and> list_all neutral ev)"
proof -
  obtain lb' h' where r: "run_state (Reconcile_loop sample_env (ClientImpl sample_env sample_net)
        \<lparr>ls_lb = sample_lb, processedAtLeastOne = False, lastError = None, ls_needsRequeue = False\<rparr> [sample_svc]
        \<bind> Reconcile_status sample_env) [] = (lb', h')"
    by (metis prod.collapse)
  have "eligibleService sample_lb sample_svc"
    "\<not> ContainsFinalizer (lib sample_env) (svcFinalizers sample_svc) ServiceFinalizer"
    by (simp_all add: eligibleService_def isServiceMatchingLBClass_def sample_svc_def sample_lb_def
        sample_meta_def IsZero_def ref_library_def)
  moreover have "fst (run_state (updateResourceWithRetry sample_env (SvcObj (addServiceFinalizer sample_env sample_svc))) []) = None"
    using updateResource_sample [of sample_env "SvcObj (addServiceFinalizer sample_env sample_svc)" "[]"]
    by (auto simp: sample_k8s_def)
  ultimately show ?thesis using ready_before_resources [OF _ _ _ _ r] r by simp
qed

section \<open>How much one pass creates\<close>

text \<open>\<open>at_most n k m\<close>: \<open>m\<close> creates at most \<open>n\<close> ports and at most \<open>k\<close> floating IPs.\<close>

fun is_port_create :: "event \<Rightarrow> bool" where
  "is_port_create (EPortCreate c opts r) = True"
| "is_port_create _ = False"

fun is_fip_create :: "event \<Rightarrow> bool" where
  "is_fip_create (EFipCreate c opts r) = True"
| "is_fip_create _ = False"

definition at_most :: "nat \<Rightarrow> nat \<Rightarrow> 'a io \<Rightarrow> bool" where
  "at_most n k m \<longleftrightarrow> emits m (\<lambda>_ ev. length (filter is_port_create ev) \<le> n \<and> length (filter is_fip_create ev) \<le> k)"

lemma at_most_neutral: "emits m (\<lambda>_. list_all neutral) \<Longrightarrow> at_most n k m"
  unfolding at_most_def
proof (erule emits_weaken)
  fix a ev assume "list_all neutral ev"
  then have "filter is_port_create ev = [] \<and> filter is_fip_create ev = []"
    by (induction ev) (auto elim: neutral.elims)
  then show "length (filter is_port_create ev) \<le> n \<and> length (filter is_fip_create ev) \<le> k" by simp
qed

lemma at_most_bind:
  assumes "at_most n1 k1 m" and "\<And>a. at_most n2 k2 (f a)" and "n1 + n2 \<le> n" and "k1 + k2 \<le> k"
  shows "at_most n k (m \<bind> f)"
  unfolding at_most_def
  by (rule emits_bind_weaken [OF assms(1) [unfolded at_most_def]],
      rule emits_weaken [OF assms(2) [unfolded at_most_def]]) (use assms(3,4) in auto)

lemma at_most_if: "at_most n k m \<Longrightarrow> at_most n k m' \<Longrightarrow> at_most n k (if b then m else m')"
  by simp

lemma at_most_sum:
  "(\<And>x. at_most n k (f x)) \<Longrightarrow> (\<And>x. at_most n k (g x)) \<Longrightarrow> at_most n k (case s of Inl x \<Rightarrow> f x | Inr x \<Rightarrow> g x)"
  by (simp split: sum.split)

lemma at_most_prod: "(\<And>x y. at_most n k (f x y)) \<Longrightarrow> at_most n k (case p of (x, y) \<Rightarrow> f x y)"
  by (simp split: prod.split)

lemma at_most_prod_app: "(\<And>x y. at_most n k (f x y z)) \<Longrightarrow> at_most n k ((case p of (x, y) \<Rightarrow> f x y) z)"
  by (simp split: prod.split)

lemma at_most_let: "at_most n k (f a) \<Longrightarrow> at_most n k (Let a f)"
  by simp

lemma at_most_return: "at_most n k (ret a)"
  by (simp add: at_most_def emits_return)

lemma at_most_first: "emits m (\<lambda>_. list_all neutral) \<Longrightarrow> (\<And>a. at_most n k (f a)) \<Longrightarrow> at_most n k (m \<bind> f)"
  by (rule at_most_bind [OF at_most_neutral [of _ 0 0]]) auto

lemma at_most_last: "at_most n k m \<Longrightarrow> (\<And>a. emits (f a) (\<lambda>_. list_all neutral)) \<Longrightarrow> at_most n k (m \<bind> f)"
  by (rule at_most_bind [OF _ at_most_neutral [of _ 0 0]]) auto

lemma CreatePort_once: "at_most 1 0 (CreatePort E c net sub pname ip descr ns name)"
  unfolding at_most_def CreatePort_def Let_def PortCreate_def TagsReplaceAll_def
  by (auto intro!: emits_bind emits_call emits_return split: sum.split)

lemma CreateFloatingIP_once: "at_most 0 1 (CreateFloatingIP_impl E c net i descr ns name)"
  unfolding at_most_def CreateFloatingIP_impl_def Let_def FipCreate_def TagsReplaceAll_def
  by (auto intro!: emits_bind emits_call emits_return split: sum.split)

lemmas neutral_intros =
  list_all_prop.safe_intros neutral_only.safe_calls neutral_only.safe_utils neutral_only.safe_GetPort
  neutral_only.safe_GetFloatingIP neutral_only.safe_GetFloatingIPDetails neutral_only.safe_GetFloatingIPByPortID
  neutral_only.safe_DetectNetworkForIP

lemma ensurePortExists_once:
  assumes "backoff_spec (lib E)"
  shows "at_most (if gmap_index (svcAnnotations svc) AnnotationPortID \<noteq> [] then 0 else 1) 0 (ensurePortExists E lb svc (ClientImpl E c) ip)"
proof (cases "gmap_index (svcAnnotations svc) AnnotationPortID = []")
  case True
  then show ?thesis
    unfolding ensurePortExists_def ClientImpl_methods
    by (simp add: Let_def) (intro at_most_last CreatePort_once [simplified] neutral_intros assms)
next
  case False
  then show ?thesis
    unfolding ensurePortExists_def ClientImpl_methods
    by (simp add: Let_def) (intro at_most_neutral neutral_intros assms)
qed

lemma publish_neutral: "backoff_spec (lib E) \<Longrightarrow> emits (publishFloatingIP E svc a) (\<lambda>_. list_all neutral)"
  unfolding publishFloatingIP_def by (intro neutral_intros)

lemma CreateFloatingIP_bind:
  "(\<And>a. emits (f a) (\<lambda>_. list_all neutral)) \<Longrightarrow>
     at_most 0 1 (CreateFloatingIP_impl E c net i descr ns name \<bind> f)"
  by (rule at_most_last [OF CreateFloatingIP_once])

lemma createOrFind_once:
  assumes "backoff_spec (lib E)"
  shows "at_most 0 1 (createOrFindFloatingIP E lb svc (ClientImpl E c) portID)"
  unfolding createOrFindFloatingIP_def ClientImpl_methods
  by (intro CreateFloatingIP_bind at_most_if at_most_let at_most_sum at_most_prod at_most_return at_most_first
      neutral_intros assms)

lemma handleFloatingIP_once:
  assumes "backoff_spec (lib E)"
  shows "at_most 0 (if gmap_index (svcAnnotations svc) AnnotationFloatingIPID \<noteq> [] then 0 else 1)
    (handleFloatingIP E lb svc (ClientImpl E c) portID)"
proof (cases "gmap_index (svcAnnotations svc) AnnotationFloatingIPID = []")
  case True
  then show ?thesis
    unfolding handleFloatingIP_def ClientImpl_methods
    by (simp add: Let_def) (intro at_most_last createOrFind_once [simplified] neutral_intros publish_neutral assms)
next
  case False
  then show ?thesis
    unfolding handleFloatingIP_def ClientImpl_methods
    by (simp add: Let_def) (intro at_most_neutral neutral_intros publish_neutral assms)
qed

lemma processService_once:
  fixes svc
  defines "np \<equiv> if gmap_index (svcAnnotations svc) AnnotationPortID \<noteq> [] then 0 else 1"
    and "nf \<equiv> if gmap_index (svcAnnotations svc) AnnotationFloatingIPID \<noteq> [] then 0 else 1"
  assumes "backoff_spec (lib E)"
  shows "at_most np nf (processService E lb svc (ClientImpl E c) ip)"
proof -
  have port: "at_most np 0 (ensurePortExists E lb svc (ClientImpl E c) ip)" for lb
    unfolding np_def by (rule ensurePortExists_once [OF assms(3)])
  have fip: "at_most 0 nf (handleFloatingIP E lb svc (ClientImpl E c) i)" for lb i
    unfolding nf_def by (rule handleFloatingIP_once [OF assms(3)])
  have split: "at_most np nf (ensurePortExists E lb svc (ClientImpl E c) ip \<bind> f)" if "\<And>a. at_most 0 nf (f a)" for lb f
    by (rule at_most_bind [OF port that]) auto
  show ?thesis
    unfolding processService_def ensureServiceHasFinalizer_def ensureServiceHasCredentials_def detectNetworkForLB_def ClientImpl_methods
    by (intro split at_most_if at_most_prod at_most_prod_app at_most_return at_most_last [OF fip] at_most_first neutral_intros assms)
qed

text \<open>
  C12: one pass over a service creates at most one port, and none if the service has a port annotation;
  it creates at most one floating IP, and none if the service has a floating IP annotation.
\<close>

theorem processService_creates_once:
  assumes "backoff_spec (lib E)"
    and "run_state (processService E lb svc (ClientImpl E c) ip) h = (r, h')"
  shows "\<exists>ev. h' = h @ ev
    \<and> length (filter is_port_create ev) \<le> (if gmap_index (svcAnnotations svc) AnnotationPortID \<noteq> [] then 0 else 1)
    \<and> length (filter is_fip_create ev) \<le> (if gmap_index (svcAnnotations svc) AnnotationFloatingIPID \<noteq> [] then 0 else 1)"
  using emitsD [OF processService_once [OF assms(1), unfolded at_most_def] assms(2)] by blast

section \<open>A pass in the sample world\<close>

text \<open>A pass that creates a port: a known load balancer, and a service with finalizer and credentials.\<close>

definition adopted_svc :: Service where
  "adopted_svc = sample_svc\<lparr>svcMeta := (sample_meta ''web'')\<lparr>Finalizers := [ServiceFinalizer],
     Annotations := Some [AnnotationCredentialsSecretName \<mapsto> ''creds'',
       AnnotationCredentialsSecretNamespace \<mapsto> ''default'']\<rparr>\<rparr>"

definition known_lb :: OpenStackLoadBalancer where
  "known_lb = sample_lb\<lparr>lbMeta := (sample_meta ''lb'')\<lparr>Finalizers := [OpenstackLBFinalizer]\<rparr>,
     Spec := (Spec sample_lb)\<lparr>CreateFloatingIP := False\<rparr>,
     Status := (Status sample_lb)\<lparr>Conditions := Some [], LBNetworkID := ''n1'', LBSubnetID := ''s1''\<rparr>\<rparr>"

definition adopted_env :: env where
  "adopted_env = sample_env\<lparr>k8s := sample_k8s\<lparr>k8s_GetLB := \<lambda>h k. Inr known_lb, k8s_ListSvcs := \<lambda>h. Inr [adopted_svc]\<rparr>\<rparr>"

lemma adopted_env_simps [simp]:
  "gopher adopted_env = sample_gopher" "lib adopted_env = ref_library" "sys adopted_env = sample_sys"
  "k8s_GetLB (k8s adopted_env) h k = Inr known_lb" "k8s_ListSvcs (k8s adopted_env) h = Inr [adopted_svc]"
  "k8s_GetSvc (k8s adopted_env) h k = Inr sample_svc" "k8s_Update (k8s adopted_env) h obj = Inr obj"
  "k8s_StatusUpdate (k8s adopted_env) h lb = Inr lb" "k8s_GetSecret (k8s adopted_env) h k = Inr sample_secret"
  by (simp_all add: adopted_env_def sample_env_def sample_k8s_def)

definition created_trace :: "event list" where
  "created_trace = [EPortCreate sample_net \<lparr>pco_NetworkID = ''n1'', pco_Name = portNameFor adopted_svc,
       pco_FixedIPs = [(''s1'', ''10.0.0.5'')], pco_Description = portDescription adopted_svc\<rparr> (Inr sample_port),
     ETagsReplace sample_net ''ports'' ''p1'' (convertMapToTags adopted_env (resource_tags adopted_env ''ports'' ''default'' ''web'')) None]"

text \<open>The calls after the creation: the annotation is stored, an event recorded, the clock read.\<close>

definition recording :: "event list \<Rightarrow> bool" where
  "recording ev \<longleftrightarrow> (\<exists>k s obj r svc reason msg t. ev = [EGetSvc k s, EUpdate obj r, EEventf svc reason msg, ENow t])"

lemma process_sample:
  "\<exists>lb ev. recording ev \<and> run_state (processService adopted_env known_lb adopted_svc (ClientImpl adopted_env sample_net) ''10.0.0.5'') h
     = (((False, None), lb), h @ created_trace @ ev)"
proof -
  have f: "ContainsFinalizer ref_library (svcFinalizers adopted_svc) ServiceFinalizer"
    "IsZero (DeletionTimestamp (svcMeta adopted_svc))" "svcName adopted_svc = ''web''" "svcNamespace adopted_svc = ''default''"
    "hasAnnotation adopted_svc AnnotationCredentialsSecretName" "hasAnnotation adopted_svc AnnotationCredentialsSecretNamespace"
    "gmap_index (svcAnnotations adopted_svc) AnnotationPortID = []"
    by (simp_all add: adopted_svc_def ref_library_def sample_meta_def IsZero_def hasAnnotation_def annotation_defs gmap_index_def gmap_lookup_def)
  have l: "LBNetworkID (Status known_lb) = ''n1''" "LBSubnetID (Status known_lb) = ''s1''" "\<not> CreateFloatingIP (Spec known_lb)"
    by (simp_all add: known_lb_def)
  have c: "run_state (CreatePort adopted_env sample_net ''n1'' ''s1'' (portNameFor adopted_svc) ''10.0.0.5'' (portDescription adopted_svc) ''default'' ''web'') h
     = (Inr ''p1'', h @ created_trace)" for h
    by (simp add: CreatePort_def call_defs created_trace_def sample_gopher_def sample_port_def Let_def ResourceTypePort_def)
  have u: "\<exists>key s obj r. run_state (updateServiceAnnotationWithRetry adopted_env svc k v) h = (None, h @ [EGetSvc key s, EUpdate obj r])" for svc k v h
    by (simp add: updateServiceAnnotationWithRetry_def backoff_plain_def backoff_first plain_attempt_def
      updateServiceAnnotation_attempt_def call_defs Let_def)
  obtain key s obj r where "run_state (updateServiceAnnotationWithRetry adopted_env adopted_svc AnnotationPortID ''p1'') (h @ created_trace)
      = (None, (h @ created_trace) @ [EGetSvc key s, EUpdate obj r])"
    using u by blast
  then show ?thesis
    by (simp add: processService_def ensureServiceHasFinalizer_def ensureServiceHasCredentials_def detectNetworkForLB_def
     ensurePortExists_def f l c ClientImpl_methods setCondition_run Eventf_def Let_def recording_def)
qed

theorem processService_creates_once_witness:
  "\<exists>r h' ev. run_state (processService adopted_env known_lb adopted_svc (ClientImpl adopted_env sample_net) ''10.0.0.5'') [] = (r, h')
    \<and> h' = [] @ ev
    \<and> length (filter is_port_create ev) \<le> (if gmap_index (svcAnnotations adopted_svc) AnnotationPortID \<noteq> [] then 0 else 1)
    \<and> length (filter is_fip_create ev) \<le> (if gmap_index (svcAnnotations adopted_svc) AnnotationFloatingIPID \<noteq> [] then 0 else 1)"
proof -
  obtain r h' where r: "run_state (processService adopted_env known_lb adopted_svc (ClientImpl adopted_env sample_net) ''10.0.0.5'') [] = (r, h')"
    by (metis prod.collapse)
  have "backoff_spec (lib adopted_env)" by simp
  from processService_creates_once [OF this r] r show ?thesis by blast
qed

end
