(* ===== verification/Openstack_Store.thy ===== *)
theory Openstack_Store
  imports Reconciler
begin

text \<open>
  An abstract OpenStack: the set of ports and the set of floating IPs that exist, changed by the
  events of a trace. Against a server that behaves as such a store the cleanup of
  \<open>src/internal/controller/resource_cleanup.go\<close> really empties it of the service's resources. What
  \<open>processService\<close> created for a service is followed to the service's last cleanup in \<open>Finalization\<close>.
\<close>

section \<open>The abstract store\<close>

text \<open>The ports and floating IPs that exist, and how the calls change them.\<close>

record os_store =
  live_ports :: "Port set"
  live_fips :: "FloatingIP set"

fun store_step :: "event \<Rightarrow> os_store \<Rightarrow> os_store" where
  "store_step (EPortCreate c opts (Inr p)) st = st\<lparr>live_ports := insert p (live_ports st)\<rparr>"
| "store_step (EPortDelete c i None) st = st\<lparr>live_ports := {p \<in> live_ports st. Port_ID p \<noteq> i}\<rparr>"
| "store_step (EFipCreate c opts (Inr f)) st = st\<lparr>live_fips := insert f (live_fips st)\<rparr>"
| "store_step (EFipDelete c i None) st = st\<lparr>live_fips := {f \<in> live_fips st. FIP_ID f \<noteq> i}\<rparr>"
| "store_step e st = st"

definition store_after :: "event list \<Rightarrow> os_store \<Rightarrow> os_store" where
  "store_after es st = fold store_step es st"

text \<open>
  What a store answers: a listing returns what exists (filtered by port, if one is given), a new
  resource has the attributes that were asked for, and not found means that it does not exist.
\<close>

fun answer_ok :: "env \<Rightarrow> os_store \<Rightarrow> event \<Rightarrow> bool" where
  "answer_ok E st (EPortCreate c opts (Inr p)) = (Port_Name p = pco_Name opts \<and> Port_Description p = pco_Description opts)"
| "answer_ok E st (EPortList c (Inr pages)) = (\<forall>ps. port_Extract (gopher E) pages = Inr ps \<longrightarrow> set ps = live_ports st)"
| "answer_ok E st (EPortGet c i (Inl e)) = (IsNotFoundError e \<longrightarrow> i \<notin> Port_ID ` live_ports st)"
| "answer_ok E st (EPortDelete c i (Some e)) = (IsNotFoundError e \<longrightarrow> i \<notin> Port_ID ` live_ports st)"
| "answer_ok E st (EFipCreate c opts (Inr f)) = (FIP_Description f = fco_Description opts)"
| "answer_ok E st (EFipList c i (Inr pages)) =
     (\<forall>fs. fip_Extract (gopher E) pages = Inr fs \<longrightarrow> set fs = {f \<in> live_fips st. i = [] \<or> FIP_PortID f = i})"
| "answer_ok E st (EFipGet c i (Inl e)) = (IsNotFoundError e \<longrightarrow> i \<notin> FIP_ID ` live_fips st)"
| "answer_ok E st (EFipDelete c i (Some e)) = (IsNotFoundError e \<longrightarrow> i \<notin> FIP_ID ` live_fips st)"
| "answer_ok E st e = True"

text \<open>A trace whose answers are those of a store that starts in state \<open>st\<close> and that nobody else changes.\<close>

fun store_trace :: "env \<Rightarrow> os_store \<Rightarrow> event list \<Rightarrow> bool" where
  "store_trace E st [] = True"
| "store_trace E st (e # es) = (answer_ok E st e \<and> store_trace E (store_step e st) es)"

lemma store_after_simps [simp]:
  "store_after [] st = st" "store_after (e # es) st = store_after es (store_step e st)"
  "store_after (xs @ ys) st = store_after ys (store_after xs st)"
  by (simp_all add: store_after_def)

lemma store_trace_append [simp]:
  "store_trace E st (xs @ ys) \<longleftrightarrow> store_trace E st xs \<and> store_trace E (store_after xs st) ys"
  by (induction xs arbitrary: st) auto

fun is_create :: "event \<Rightarrow> bool" where
  "is_create (EPortCreate c opts r) = True"
| "is_create (EFipCreate c opts r) = True"
| "is_create _ = False"

lemma store_step_shrinks:
  "\<not> is_create e \<Longrightarrow> live_ports (store_step e st) \<subseteq> live_ports st \<and> live_fips (store_step e st) \<subseteq> live_fips st"
  by (cases "(e, st)" rule: store_step.cases) auto

lemma store_after_shrinks:
  "list_all (\<lambda>e. \<not> is_create e) es \<Longrightarrow>
     live_ports (store_after es st) \<subseteq> live_ports st \<and> live_fips (store_after es st) \<subseteq> live_fips st"
proof (induction es arbitrary: st)
  case (Cons e es)
  then show ?case using store_step_shrinks [of e st] by fastforce
qed simp

lemma port_gone_absent:
  "port_gone c i e \<Longrightarrow> answer_ok E st e \<Longrightarrow> i \<notin> Port_ID ` live_ports (store_step e st)"
  by (cases "(c, i, e)" rule: port_gone.cases) auto

lemma fip_gone_absent:
  "fip_gone c i e \<Longrightarrow> answer_ok E st e \<Longrightarrow> i \<notin> FIP_ID ` live_fips (store_step e st)"
  by (cases "(c, i, e)" rule: fip_gone.cases) auto

lemma gone_stays_gone:
  assumes "e \<in> set es" and "store_trace E st es" and "list_all (\<lambda>e. \<not> is_create e) es"
  shows "port_gone c i e \<Longrightarrow> i \<notin> Port_ID ` live_ports (store_after es st)"
    and "fip_gone c i e \<Longrightarrow> i \<notin> FIP_ID ` live_fips (store_after es st)"
proof -
  from assms(1) obtain xs ys where es: "es = xs @ e # ys" by (meson split_list)
  let ?st = "store_after xs st"
  have ok: "answer_ok E ?st e" and ys: "list_all (\<lambda>e. \<not> is_create e) ys"
    using assms(2,3) by (auto simp: es)
  show "port_gone c i e \<Longrightarrow> i \<notin> Port_ID ` live_ports (store_after es st)"
    using port_gone_absent [OF _ ok] store_after_shrinks [OF ys, of "store_step e ?st"] by (simp add: es) blast
  show "fip_gone c i e \<Longrightarrow> i \<notin> FIP_ID ` live_fips (store_after es st)"
    using fip_gone_absent [OF _ ok] store_after_shrinks [OF ys, of "store_step e ?st"] by (simp add: es) blast
qed

lemma listed_bounds_live:
  assumes "store_trace E st es" and "list_all (\<lambda>e. \<not> is_create e) es"
  shows "EPortList c (Inr pages) \<in> set es \<Longrightarrow> port_Extract (gopher E) pages = Inr ps \<Longrightarrow>
           live_ports (store_after es st) \<subseteq> set ps"
    and "EFipList c [] (Inr pages) \<in> set es \<Longrightarrow> fip_Extract (gopher E) pages = Inr fs \<Longrightarrow>
           live_fips (store_after es st) \<subseteq> set fs"
proof -
  show "live_ports (store_after es st) \<subseteq> set ps"
    if l: "EPortList c (Inr pages) \<in> set es" "port_Extract (gopher E) pages = Inr ps"
  proof -
    from l(1) obtain xs ys where es: "es = xs @ EPortList c (Inr pages) # ys" by (meson split_list)
    then show ?thesis using assms l(2) store_after_shrinks [of ys "store_after xs st"] by auto
  qed
  show "live_fips (store_after es st) \<subseteq> set fs"
    if l: "EFipList c [] (Inr pages) \<in> set es" "fip_Extract (gopher E) pages = Inr fs"
  proof -
    from l(1) obtain xs ys where es: "es = xs @ EFipList c [] (Inr pages) # ys" by (meson split_list)
    then show ?thesis using assms l(2) store_after_shrinks [of ys "store_after xs st"] by auto
  qed
qed

section \<open>Cleanup creates nothing\<close>

interpretation no_create: audited "list_all (\<lambda>e. \<not> is_create e)"
  by unfold_locales (auto elim: neutral.elims)

text \<open>
  A cleanup only uses methods that create nothing: it runs the same with a client whose creating
  methods are disabled, and that client keeps the contract.
\<close>

definition no_create_client :: "env \<Rightarrow> ServiceClient \<Rightarrow> Client" where
  "no_create_client E c = (ClientImpl E c)\<lparr>
     Client_CreatePort := \<lambda>_ _ _ _ _ _ _. ret (Inl (Errorf [])),
     Client_CreateFloatingIP := \<lambda>_ _ _ _ _. ret (Inl (Errorf []))\<rparr>"

interpretation no_create_client: audited_client "list_all (\<lambda>e. \<not> is_create e)" "no_create_client E c" for E c
proof -
  have p: "emits (DeletePort E c i) (\<lambda>_. list_all (\<lambda>e. \<not> is_create e))" for i
    unfolding DeletePort_def deleteResource_def PortDelete_def
    by (intro list_all_prop.safe_intros no_create.safe_calls no_create.safe_checkPortExists list_all_prop.safe_call) simp
  have f: "emits (DeleteFloatingIP E c i) (\<lambda>_. list_all (\<lambda>e. \<not> is_create e))" for i
    unfolding DeleteFloatingIP_def deleteResource_def FipDelete_def
    by (intro list_all_prop.safe_intros no_create.safe_calls no_create.safe_checkFloatingIPExists list_all_prop.safe_call) simp
  show "audited_client (list_all (\<lambda>e. \<not> is_create e)) (no_create_client E c)"
    by unfold_locales
      (simp_all add: no_create_client_def ClientImpl_def p f GetManagedPorts_def GetManagedFloatingIPs_def
        no_create.safe_GetPort no_create.safe_GetFloatingIP no_create.safe_GetAllPorts no_create.safe_GetAllFloatingIPs
        no_create.safe_GetFloatingIPDetails no_create.safe_GetFloatingIPByPortID no_create.safe_DetectNetworkForIP
        no_create.safe_getManagedResources no_create.safe_calls list_all_prop.safe_return)
qed

lemma cleanup_same_client:
  "CleanupResourcesForService E (no_create_client E c) svc = CleanupResourcesForService E (ClientImpl E c) svc"
proof -
  have "Client_GetAllFloatingIPs (no_create_client E c) = Client_GetAllFloatingIPs (ClientImpl E c)"
    "Client_GetAllPorts (no_create_client E c) = Client_GetAllPorts (ClientImpl E c)"
    "Client_DeleteFloatingIP (no_create_client E c) = Client_DeleteFloatingIP (ClientImpl E c)"
    "Client_DeletePort (no_create_client E c) = Client_DeletePort (ClientImpl E c)"
    by (simp_all add: no_create_client_def)
  then show ?thesis
    by (simp only: CleanupResourcesForService_def deleteFloatingIPs_loop_def deletePorts_loop_def)
qed

lemma cleanup_creates_nothing:
  assumes "retry_spec (lib E)"
  shows "emits (CleanupResourcesForService E (ClientImpl E c) svc) (\<lambda>_. list_all (\<lambda>e. \<not> is_create e))"
  using no_create_client.safe_CleanupResourcesForService [OF assms, of E c svc]
  by (simp only: cleanup_same_client)


section \<open>What a cleanup leaves\<close>

text \<open>What a complete cleanup leaves in a store.\<close>

definition nothing_selected :: "Service \<Rightarrow> os_store \<Rightarrow> bool" where
  "nothing_selected svc st \<longleftrightarrow>
     (\<forall>p \<in> live_ports st. \<not> shouldDeletePort svc (fst (extractResourceIDsFromAnnotations svc)) p)
     \<and> (\<forall>f \<in> live_fips st.
          \<not> shouldDeleteFloatingIP svc (fst (extractResourceIDsFromAnnotations svc)) (snd (extractResourceIDsFromAnnotations svc)) f)"

lemma complete_cleanup_empties:
  assumes c: "cleanup_complete E c svc ev" and n: "list_all (\<lambda>e. \<not> is_create e) ev" and tr: "store_trace E st ev"
  shows "nothing_selected svc (store_after ev st)"
proof -
  obtain fpages ppages fips ports where l: "EFipList c [] (Inr fpages) \<in> set ev" "fip_Extract (gopher E) fpages = Inr fips"
    "EPortList c (Inr ppages) \<in> set ev" "port_Extract (gopher E) ppages = Inr ports"
    and f: "\<And>f. f \<in> set fips \<Longrightarrow> shouldDeleteFloatingIP svc (fst (extractResourceIDsFromAnnotations svc)) (snd (extractResourceIDsFromAnnotations svc)) f
       \<Longrightarrow> \<exists>e \<in> set ev. fip_gone c (FIP_ID f) e"
    and p: "\<And>p. p \<in> set ports \<Longrightarrow> shouldDeletePort svc (fst (extractResourceIDsFromAnnotations svc)) p \<Longrightarrow> \<exists>e \<in> set ev. port_gone c (Port_ID p) e"
    using c unfolding cleanup_complete_def split_beta by blast
  have "live_ports (store_after ev st) \<subseteq> set ports" "live_fips (store_after ev st) \<subseteq> set fips"
    using listed_bounds_live [OF tr n] l by blast+
  then show ?thesis
    using p f gone_stays_gone [OF _ tr n] unfolding nothing_selected_def by blast
qed

lemma nothing_selected_shrinks:
  "nothing_selected svc st \<Longrightarrow> list_all (\<lambda>e. \<not> is_create e) ev \<Longrightarrow> nothing_selected svc (store_after ev st)"
  using store_after_shrinks [of ev st] unfolding nothing_selected_def by blast

lemma cleanup_empties_store:
  assumes "retry_spec (lib E)"
    and "run_state (CleanupResourcesForService E (ClientImpl E c) svc) h = ((False, None), h')"
    and "store_trace E st h'"
  shows "nothing_selected svc (store_after h' st)"
proof -
  have b: "backoff_spec (lib E)" using assms(1) by auto
  obtain ev where ev: "h' = h @ ev" "cleanup_complete E c svc ev" "list_all (\<lambda>e. \<not> is_create e) ev"
    using emitsD [OF emits_conj [OF cleanup_emits [OF b] cleanup_creates_nothing [OF assms(1)]] assms(2)]
    by (auto simp: cleanup_post_def)
  then show ?thesis using assms(3) complete_cleanup_empties [OF ev(2,3)] by simp
qed

text \<open>
  C4: against a server that behaves as a store nobody else changes, a cleanup that reports completion
  leaves no port and no floating IP that is selected for the service.
\<close>

theorem cleanup_leaves_nothing:
  assumes "retry_spec (lib E)"
    and "run_state (CleanupResourcesForService E (ClientImpl E c) svc) h = ((False, None), h')"
    and "store_trace E st h'" and "extractResourceIDsFromAnnotations svc = (portID, floatingIPID)"
  shows "(\<forall>p \<in> live_ports (store_after h' st). \<not> shouldDeletePort svc portID p)
    \<and> (\<forall>f \<in> live_fips (store_after h' st). \<not> shouldDeleteFloatingIP svc portID floatingIPID f)"
  using cleanup_empties_store [OF assms(1-3)] assms(4) by (simp add: nothing_selected_def)

definition sample_store :: os_store where
  "sample_store = \<lparr>live_ports = {sample_port}, live_fips = {sample_fip}\<rparr>"

lemma cleanup_trace_store:
  assumes "gopher E = sample_gopher" and "live_fips st = {sample_fip}" and "live_ports st = {sample_port}"
  shows "store_trace E st cleanup_trace"
  using assms by (simp add: cleanup_trace_def sample_gopher_def)

theorem cleanup_leaves_nothing_witness:
  "\<exists>h'. run_state (CleanupResourcesForService sample_env (ClientImpl sample_env sample_net) sample_svc) [] = ((False, None), h')
    \<and> (\<forall>p \<in> live_ports (store_after h' sample_store). \<not> shouldDeletePort sample_svc [] p)
    \<and> (\<forall>f \<in> live_fips (store_after h' sample_store). \<not> shouldDeleteFloatingIP sample_svc [] [] f)"
proof -
  have r: "run_state (CleanupResourcesForService sample_env (ClientImpl sample_env sample_net) sample_svc) []
      = ((False, None), cleanup_trace)"
    by (simp add: cleanup_sample)
  have "store_trace sample_env sample_store cleanup_trace"
    by (rule cleanup_trace_store) (simp_all add: sample_store_def)
  moreover have "extractResourceIDsFromAnnotations sample_svc = ([], [])"
    using like_sample(1) by (simp add: like_sample_def)
  moreover have "retry_spec (lib sample_env)" by simp
  ultimately show ?thesis using cleanup_leaves_nothing [OF _ r] r by blast
qed

end
