(* ===== verification/Cluster.thy ===== *)
theory Cluster
  imports Reconciler
begin

text \<open>
  The servers as seen from the history: an abstract state of the cluster (stored load balancers and
  services, existing ports and floating IPs) that the events of a history change. \<open>reliable\<close> states
  that the servers answer from that state, accept updates under the current resource version and
  create what they are asked for. Under this assumption each retried update of
  \<open>src/internal/controller/utils.go\<close> succeeds at the first attempt and has exactly the effect it is
  named after.
\<close>

section \<open>The cluster\<close>

text \<open>
  Stored load balancers and services by key, the IDs of existing ports, and existing floating IPs by
  ID. A successful update replaces the stored object by the answer; nothing else happens to it.
\<close>

record cluster =
  c_lbs :: "NamespacedName \<rightharpoonup> OpenStackLoadBalancer"
  c_svcs :: "NamespacedName \<rightharpoonup> Service"
  c_ports :: "string set"
  c_fips :: "string \<rightharpoonup> FloatingIP"

definition put_svc :: "Service \<Rightarrow> cluster \<Rightarrow> cluster" where
  "put_svc s w = (if c_svcs w (svcKey s) = None then w else w\<lparr>c_svcs := (c_svcs w)(svcKey s \<mapsto> s)\<rparr>)"

definition put_lb :: "OpenStackLoadBalancer \<Rightarrow> cluster \<Rightarrow> cluster" where
  "put_lb l w = (if c_lbs w (lbKey l) = None then w else w\<lparr>c_lbs := (c_lbs w)(lbKey l \<mapsto> l)\<rparr>)"

fun cluster_step :: "event \<Rightarrow> cluster \<Rightarrow> cluster" where
  "cluster_step (EUpdate obj (Inr (SvcObj s))) w = put_svc s w"
| "cluster_step (EUpdate obj (Inr (LBObj l))) w = put_lb l w"
| "cluster_step (EStatusUpdate lb (Inr l)) w = put_lb l w"
| "cluster_step (EPortCreate c opts (Inr p)) w = w\<lparr>c_ports := insert (Port_ID p) (c_ports w)\<rparr>"
| "cluster_step (EPortDelete c i None) w = w\<lparr>c_ports := c_ports w - {i}\<rparr>"
| "cluster_step (EFipCreate c opts (Inr f)) w = w\<lparr>c_fips := (c_fips w)(FIP_ID f \<mapsto> f)\<rparr>"
| "cluster_step (EFipDelete c i None) w = w\<lparr>c_fips := (c_fips w)(i := None)\<rparr>"
| "cluster_step e w = w"

definition cluster_after :: "history \<Rightarrow> cluster \<Rightarrow> cluster" where
  "cluster_after h w = fold cluster_step h w"

lemma cluster_after_simps [simp]:
  "cluster_after [] w = w" "cluster_after (e # es) w = cluster_after es (cluster_step e w)"
  "cluster_after (h @ h') w = cluster_after h' (cluster_after h w)"
  by (simp_all add: cluster_after_def)

section \<open>Reliable servers\<close>

definition bump_svc :: "string \<Rightarrow> Service \<Rightarrow> Service" where
  "bump_svc v s = s\<lparr>svcMeta := (svcMeta s)\<lparr>ResourceVersion := v\<rparr>\<rparr>"

definition bump_lb :: "string \<Rightarrow> OpenStackLoadBalancer \<Rightarrow> OpenStackLoadBalancer" where
  "bump_lb v l = l\<lparr>lbMeta := (lbMeta l)\<lparr>ResourceVersion := v\<rparr>\<rparr>"

text \<open>
  The API server: reads return what is stored; an update under the stored resource version is
  accepted, gets a new version and does not touch the status (a subresource of both kinds); a status
  update changes nothing but the status.
\<close>

definition reliable_k8s :: "env \<Rightarrow> cluster \<Rightarrow> bool" where
  "reliable_k8s E w0 \<longleftrightarrow>
     (\<forall>h k s. c_svcs (cluster_after h w0) k = Some s \<longrightarrow> k8s_GetSvc (k8s E) h k = Inr s)
     \<and> (\<forall>h k l. c_lbs (cluster_after h w0) k = Some l \<longrightarrow> k8s_GetLB (k8s E) h k = Inr l)
     \<and> (\<forall>h. \<exists>svcs. k8s_ListSvcs (k8s E) h = Inr svcs \<and> distinct (map svcKey svcs)
           \<and> set svcs = ran (c_svcs (cluster_after h w0)))
     \<and> (\<forall>h s cur. c_svcs (cluster_after h w0) (svcKey s) = Some cur
           \<and> ResourceVersion (svcMeta s) = ResourceVersion (svcMeta cur) \<longrightarrow>
             (\<exists>v. k8s_Update (k8s E) h (SvcObj s) = Inr (SvcObj (bump_svc v (s\<lparr>Ingress := Ingress cur\<rparr>)))))
     \<and> (\<forall>h l cur. c_lbs (cluster_after h w0) (lbKey l) = Some cur
           \<and> ResourceVersion (lbMeta l) = ResourceVersion (lbMeta cur) \<longrightarrow>
             (\<exists>v. k8s_Update (k8s E) h (LBObj l) = Inr (LBObj (bump_lb v (l\<lparr>Status := Status cur\<rparr>)))))
     \<and> (\<forall>h l cur. c_lbs (cluster_after h w0) (lbKey l) = Some cur
           \<and> ResourceVersion (lbMeta l) = ResourceVersion (lbMeta cur) \<longrightarrow>
             (\<exists>v. k8s_StatusUpdate (k8s E) h l = Inr (bump_lb v (cur\<lparr>Status := Status l\<rparr>))))"

text \<open>
  OpenStack: ports and floating IPs are created when asked for, under an ID that is not empty and, for
  floating IPs, not in use; reads return what exists and not found otherwise; a list by port returns
  existing floating IPs.
\<close>

definition reliable_openstack :: "env \<Rightarrow> cluster \<Rightarrow> bool" where
  "reliable_openstack E w0 \<longleftrightarrow>
     (\<forall>h c opts. \<exists>p. port_Create (gopher E) h c opts = Inr p \<and> Port_ID p \<noteq> [])
     \<and> (\<forall>h c i. if i \<in> c_ports (cluster_after h w0) then \<exists>p. port_Get (gopher E) h c i = Inr p
                else \<exists>e. port_Get (gopher E) h c i = Inl e \<and> IsNotFoundError e)
     \<and> (\<forall>h c opts. \<exists>f. fip_Create (gopher E) h c opts = Inr f \<and> FIP_ID f \<noteq> []
           \<and> c_fips (cluster_after h w0) (FIP_ID f) = None)
     \<and> (\<forall>h c i. case c_fips (cluster_after h w0) i of Some f \<Rightarrow> fip_Get (gopher E) h c i = Inr f
                | None \<Rightarrow> \<exists>e. fip_Get (gopher E) h c i = Inl e \<and> IsNotFoundError e)
     \<and> (\<forall>h c i. \<exists>pages fs. fip_List (gopher E) h c i = Inr pages \<and> fip_Extract (gopher E) pages = Inr fs
           \<and> (\<forall>f \<in> set fs. FIP_ID f \<noteq> [] \<and> c_fips (cluster_after h w0) (FIP_ID f) = Some f))"

text \<open>Connecting with the credentials of a load balancer works; no CA certificates are configured.\<close>

definition reliable_login :: "env \<Rightarrow> OpenStackLoadBalancerSpec \<Rightarrow> bool" where
  "reliable_login E sp \<longleftrightarrow>
     (\<forall>h. \<exists>sec. k8s_GetSecret (k8s E) h \<lparr>nnName = refName (ApplicationCredentialSecretRef sp),
             nnNamespace = refNamespace (ApplicationCredentialSecretRef sp)\<rparr> = Inr sec \<and> credentials_complete sec)
     \<and> os_Getenv (sys E) ''OPENSTACK_CA_CERT_PATH'' = []
     \<and> (\<forall>h url. \<exists>pc. os_NewClient (gopher E) h url = Inr pc)
     \<and> (\<forall>h pc ao. os_Authenticate (gopher E) h pc ao = None)
     \<and> (\<forall>h pc r. \<exists>nc. os_NewNetworkV2 (gopher E) h pc r = Inr nc)"

text \<open>Some listed subnet covers the address.\<close>

definition detectable :: "env \<Rightarrow> string \<Rightarrow> bool" where
  "detectable E ip \<longleftrightarrow> (\<exists>a. ParseIP ip = Some a \<and> (\<forall>h c. \<exists>pages sns.
      subnet_List (gopher E) h c = Inr pages \<and> subnet_Extract (gopher E) pages = Inr sns
      \<and> (\<exists>sn \<in> set sns. subnet_covers a sn)))"

definition reliable :: "env \<Rightarrow> cluster \<Rightarrow> bool" where
  "reliable E w0 \<longleftrightarrow> reliable_k8s E w0 \<and> reliable_openstack E w0
     \<and> backoff_spec (lib E) \<and> finalizer_spec (lib E) \<and> range_spec (sys E)"

lemma reliableD:
  assumes "reliable E w0"
  shows "reliable_k8s E w0" "reliable_openstack E w0" "backoff_spec (lib E)" "finalizer_spec (lib E)"
    "range_spec (sys E)"
  using assms by (simp_all add: reliable_def)

lemma reliable_GetSvc: "reliable E w0 \<Longrightarrow> c_svcs (cluster_after h w0) k = Some s \<Longrightarrow> k8s_GetSvc (k8s E) h k = Inr s"
  by (simp add: reliable_def reliable_k8s_def)

lemma reliable_GetLB: "reliable E w0 \<Longrightarrow> c_lbs (cluster_after h w0) k = Some l \<Longrightarrow> k8s_GetLB (k8s E) h k = Inr l"
  by (simp add: reliable_def reliable_k8s_def)

lemma reliable_ListSvcs:
  assumes "reliable E w0"
  obtains svcs where "k8s_ListSvcs (k8s E) h = Inr svcs" "distinct (map svcKey svcs)"
    "set svcs = ran (c_svcs (cluster_after h w0))"
  using assms unfolding reliable_def reliable_k8s_def by blast

lemma reliable_Update_svc:
  assumes "reliable E w0" and "c_svcs (cluster_after h w0) (svcKey s) = Some cur"
    and "ResourceVersion (svcMeta s) = ResourceVersion (svcMeta cur)"
  obtains v where "k8s_Update (k8s E) h (SvcObj s) = Inr (SvcObj (bump_svc v (s\<lparr>Ingress := Ingress cur\<rparr>)))"
  using assms unfolding reliable_def reliable_k8s_def by blast

lemma reliable_Update_lb:
  assumes "reliable E w0" and "c_lbs (cluster_after h w0) (lbKey l) = Some cur"
    and "ResourceVersion (lbMeta l) = ResourceVersion (lbMeta cur)"
  obtains v where "k8s_Update (k8s E) h (LBObj l) = Inr (LBObj (bump_lb v (l\<lparr>Status := Status cur\<rparr>)))"
  using assms unfolding reliable_def reliable_k8s_def by blast

lemma reliable_StatusUpdate:
  assumes "reliable E w0" and "c_lbs (cluster_after h w0) (lbKey l) = Some cur"
    and "ResourceVersion (lbMeta l) = ResourceVersion (lbMeta cur)"
  obtains v where "k8s_StatusUpdate (k8s E) h l = Inr (bump_lb v (cur\<lparr>Status := Status l\<rparr>))"
  using assms unfolding reliable_def reliable_k8s_def by blast

lemma reliable_port_Get:
  assumes "reliable E w0"
  shows "i \<in> c_ports (cluster_after h w0) \<Longrightarrow> \<exists>p. port_Get (gopher E) h c i = Inr p"
    and "i \<notin> c_ports (cluster_after h w0) \<Longrightarrow> \<exists>e. port_Get (gopher E) h c i = Inl e \<and> IsNotFoundError e"
proof -
  have "if i \<in> c_ports (cluster_after h w0) then \<exists>p. port_Get (gopher E) h c i = Inr p
      else \<exists>e. port_Get (gopher E) h c i = Inl e \<and> IsNotFoundError e"
    using reliableD(2) [OF assms] unfolding reliable_openstack_def by blast
  then show "i \<in> c_ports (cluster_after h w0) \<Longrightarrow> \<exists>p. port_Get (gopher E) h c i = Inr p"
    and "i \<notin> c_ports (cluster_after h w0) \<Longrightarrow> \<exists>e. port_Get (gopher E) h c i = Inl e \<and> IsNotFoundError e"
    by (simp_all split: if_splits)
qed

lemma reliable_fip_Get:
  assumes "reliable E w0"
  shows "c_fips (cluster_after h w0) i = Some f \<Longrightarrow> fip_Get (gopher E) h c i = Inr f"
    and "c_fips (cluster_after h w0) i = None \<Longrightarrow> \<exists>e. fip_Get (gopher E) h c i = Inl e \<and> IsNotFoundError e"
proof -
  have "case c_fips (cluster_after h w0) i of Some f \<Rightarrow> fip_Get (gopher E) h c i = Inr f
      | None \<Rightarrow> \<exists>e. fip_Get (gopher E) h c i = Inl e \<and> IsNotFoundError e"
    using reliableD(2) [OF assms] unfolding reliable_openstack_def by blast
  then show "c_fips (cluster_after h w0) i = Some f \<Longrightarrow> fip_Get (gopher E) h c i = Inr f"
    and "c_fips (cluster_after h w0) i = None \<Longrightarrow> \<exists>e. fip_Get (gopher E) h c i = Inl e \<and> IsNotFoundError e"
    by simp_all
qed

lemma bump_simps [simp]:
  "svcKey (bump_svc v s) = svcKey s" "lbKey (bump_lb v l) = lbKey l"
  "svcKey (s\<lparr>Ingress := i\<rparr>) = svcKey s" "svcKey (svcSetAnnotations s m) = svcKey s"
  "svcKey (svcSetFinalizers s fs) = svcKey s" "lbKey (lbSetFinalizers l fs) = lbKey l"
  "lbKey (l\<lparr>Status := st\<rparr>) = lbKey l" "svcKey (s\<lparr>ExternalIPs := ips\<rparr>) = svcKey s"
  by (simp_all add: bump_svc_def bump_lb_def svcKey_def lbKey_def svcSetAnnotations_def
      svcSetFinalizers_def lbSetFinalizers_def)

section \<open>The retried updates in a reliable cluster\<close>

text \<open>\<open>stored w k s w'\<close>: the cluster \<open>w'\<close> is \<open>w\<close> with \<open>s\<close> stored under \<open>k\<close>, in a new version.\<close>

definition stored :: "cluster \<Rightarrow> NamespacedName \<Rightarrow> Service \<Rightarrow> cluster \<Rightarrow> bool" where
  "stored w k s w' \<longleftrightarrow> (\<exists>v. w' = w\<lparr>c_svcs := (c_svcs w)(k \<mapsto> bump_svc v s)\<rparr>)"

lemma wp_backoff_plain:
  assumes "backoff_spec (lib E)" and "wp m (\<lambda>r h'. r = (True, None) \<and> Q None h') h"
  shows "wp (backoff_plain E m svc) Q h"
proof -
  obtain h' where m: "run_state m h = ((True, None), h')" and Q: "Q None h'"
    using assms(2) by (auto simp: wp_def split: prod.splits)
  have "run_state (ExponentialBackoff (lib E) RetryBackoff (plain_attempt m) (SvcObj svc)) h = ((None, SvcObj svc), h')"
    by (rule backoff_first [OF assms(1)]) (simp add: plain_attempt_def m)
  with Q show ?thesis by (simp add: backoff_plain_def wp_def)
qed

text \<open>Changes that keep what identifies a service and its status.\<close>

definition same_identity :: "Service \<Rightarrow> Service \<Rightarrow> bool" where
  "same_identity s s' \<longleftrightarrow> svcKey s' = svcKey s \<and> Ingress s' = Ingress s
     \<and> ResourceVersion (svcMeta s') = ResourceVersion (svcMeta s)"

lemma same_identity_changes [simp]:
  "same_identity s (setAnnotation k v s)" "same_identity s (setAnnotations kvs s)"
  "addExternalIP ip s = Some s' \<Longrightarrow> same_identity s s'"
  by (auto simp: same_identity_def setAnnotation_def setAnnotations_def svcSetAnnotations_def addExternalIP_def
      svcKey_def split: if_splits)

lemma wp_rmw:
  assumes R: "reliable E w0" and cur: "c_svcs (cluster_after h w0) k = Some cur" and key: "svcKey cur = k"
    and f: "\<And>s'. f cur = Some s' \<Longrightarrow> same_identity cur s'"
  shows "wp (backoff_plain E (rmw_attempt E k f) svc) (\<lambda>err h'. err = None
    \<and> (case f cur of None \<Rightarrow> cluster_after h' w0 = cluster_after h w0
        | Some s' \<Rightarrow> stored (cluster_after h w0) k s' (cluster_after h' w0))) h"
proof (cases "f cur")
  case None
  with reliable_GetSvc [OF R cur] show ?thesis
    by (intro wp_backoff_plain reliableD [OF R]) (simp add: rmw_attempt_def GetSvc_def)
next
  case (Some s')
  let ?h = "h @ [EGetSvc k (Inr cur)]"
  have s': "svcKey s' = k" "ResourceVersion (svcMeta s') = ResourceVersion (svcMeta cur)"
    and i: "s'\<lparr>Ingress := Ingress cur\<rparr> = s'"
    using f [OF Some] key by (auto simp: same_identity_def)
  from s' cur have "c_svcs (cluster_after ?h w0) (svcKey s') = Some cur" by simp
  with s'(2) obtain v where "k8s_Update (k8s E) ?h (SvcObj s') = Inr (SvcObj (bump_svc v s'))"
    using reliable_Update_svc [OF R, of ?h s' cur] i by metis
  with Some reliable_GetSvc [OF R cur] cur s'(1) show ?thesis
    by (intro wp_backoff_plain reliableD [OF R])
      (auto simp: rmw_attempt_def GetSvc_def Update_def stored_def put_svc_def)
qed

lemma wp_updateServiceAnnotationWithRetry:
  assumes "reliable E w0" and "c_svcs (cluster_after h w0) (svcKey svc) = Some cur" and "svcKey cur = svcKey svc"
  shows "wp (updateServiceAnnotationWithRetry E svc k v) (\<lambda>err h'. err = None
    \<and> stored (cluster_after h w0) (svcKey svc) (setAnnotation k v cur) (cluster_after h' w0)) h"
  unfolding updateServiceAnnotationWithRetry_def updateServiceAnnotation_attempt_rmw
  using wp_rmw [OF assms, of "\<lambda>s. Some (setAnnotation k v s)" svc] by simp

lemma wp_updateMultipleServiceAnnotations:
  assumes R: "reliable E w0" and "c_svcs (cluster_after h w0) (svcKey svc) = Some cur" and "svcKey cur = svcKey svc"
    and "distinct (map fst kvs)"
  shows "wp (updateMultipleServiceAnnotations E svc kvs) (\<lambda>err h'. err = None
    \<and> stored (cluster_after h w0) (svcKey svc) (setAnnotations kvs cur) (cluster_after h' w0)) h"
  unfolding updateMultipleServiceAnnotations_def
    updateMultipleServiceAnnotations_attempt_rmw [OF reliableD(5) [OF R] assms(4)]
  using wp_rmw [OF assms(1-3), of "\<lambda>s. Some (setAnnotations kvs s)" svc] by simp

lemma wp_updateServiceExternalIPs:
  assumes "reliable E w0" and "c_svcs (cluster_after h w0) (svcKey svc) = Some cur" and "svcKey cur = svcKey svc"
  shows "wp (updateServiceExternalIPs E svc ip) (\<lambda>err h'. err = None
    \<and> (case addExternalIP ip cur of None \<Rightarrow> cluster_after h' w0 = cluster_after h w0
        | Some s' \<Rightarrow> stored (cluster_after h w0) (svcKey svc) s' (cluster_after h' w0))) h"
  unfolding updateServiceExternalIPs_def updateServiceExternalIPs_attempt_rmw
  using wp_rmw [OF assms, of "addExternalIP ip" svc] by simp

lemma wp_updateResource:
  assumes "backoff_spec (lib E)" and "wp (updateResource_attempt E obj) (\<lambda>r h'. fst r = (True, None) \<and> Q None h') h"
  shows "wp (updateResourceWithRetry E obj) Q h"
proof -
  obtain obj' h' where m: "run_state (updateResource_attempt E obj) h = (((True, None), obj'), h')" and Q: "Q None h'"
    using assms(2) by (cases "run_state (updateResource_attempt E obj) h") (auto simp: wp_def)
  from backoff_first [where f = "updateResource_attempt E", OF assms(1) m] Q show ?thesis by (simp add: updateResourceWithRetry_def wp_def)
qed

lemma wp_updateResource_svc:
  assumes R: "reliable E w0" and cur: "c_svcs (cluster_after h w0) (svcKey svc) = Some cur"
    and i: "Ingress svc = Ingress cur"
  shows "wp (updateResourceWithRetry E (SvcObj svc)) (\<lambda>err h'. err = None
    \<and> stored (cluster_after h w0) (svcKey svc) svc (cluster_after h' w0)) h"
proof -
  let ?h = "h @ [EGetSvc (svcKey svc) (Inr cur)]" and ?s = "bump_svc (ResourceVersion (svcMeta cur)) svc"
  have "c_svcs (cluster_after ?h w0) (svcKey ?s) = Some cur" "ResourceVersion (svcMeta ?s) = ResourceVersion (svcMeta cur)"
    "?s\<lparr>Ingress := Ingress cur\<rparr> = ?s"
    using cur i by (simp_all add: bump_svc_def svcKey_def)
  then obtain v where "k8s_Update (k8s E) ?h (SvcObj ?s) = Inr (SvcObj (bump_svc v ?s))"
    using reliable_Update_svc [OF R, of ?h ?s cur] by metis
  moreover have "bump_svc v ?s = bump_svc v svc" for v by (simp add: bump_svc_def)
  ultimately have "k8s_Update (k8s E) ?h (SvcObj ?s) = Inr (SvcObj (bump_svc v svc))" by simp
  with reliable_GetSvc [OF R cur] cur show ?thesis
    by (intro wp_updateResource reliableD [OF R])
      (auto simp: updateResource_attempt_def GetSvc_def Update_def Let_def stored_def put_svc_def
        simp flip: bump_svc_def)
qed

lemma wp_updateResource_lb:
  assumes R: "reliable E w0" and cur: "c_lbs (cluster_after h w0) (lbKey lb) = Some cur"
  shows "wp (updateResourceWithRetry E (LBObj lb)) (\<lambda>err h'. err = None
    \<and> (\<exists>v. cluster_after h' w0 = (cluster_after h w0)\<lparr>c_lbs := (c_lbs (cluster_after h w0))(lbKey lb \<mapsto>
          bump_lb v (lb\<lparr>Status := Status cur\<rparr>))\<rparr>)) h"
proof -
  let ?h = "h @ [EGetLB (lbKey lb) (Inr cur)]" and ?l = "bump_lb (ResourceVersion (lbMeta cur)) lb"
  have "c_lbs (cluster_after ?h w0) (lbKey ?l) = Some cur" "ResourceVersion (lbMeta ?l) = ResourceVersion (lbMeta cur)"
    using cur by (simp_all add: bump_lb_def lbKey_def)
  then obtain v where "k8s_Update (k8s E) ?h (LBObj ?l) = Inr (LBObj (bump_lb v (?l\<lparr>Status := Status cur\<rparr>)))"
    using reliable_Update_lb [OF R, of ?h ?l cur] by metis
  moreover have "bump_lb v (?l\<lparr>Status := Status cur\<rparr>) = bump_lb v (lb\<lparr>Status := Status cur\<rparr>)" for v by (simp add: bump_lb_def)
  ultimately have "k8s_Update (k8s E) ?h (LBObj ?l) = Inr (LBObj (bump_lb v (lb\<lparr>Status := Status cur\<rparr>)))" by simp
  with reliable_GetLB [OF R cur] cur show ?thesis
    by (intro wp_updateResource reliableD [OF R])
      (auto simp: updateResource_attempt_def GetLB_def Update_def Let_def put_lb_def simp flip: bump_lb_def)
qed

lemma wp_updateStatusWithRetry:
  assumes R: "reliable E w0" and cur: "c_lbs (cluster_after h w0) (lbKey lb) = Some cur" and key: "lbKey cur = lbKey lb"
  shows "wp (updateStatusWithRetry E lb) (\<lambda>r h'. fst r = None
    \<and> (\<exists>v. cluster_after h' w0 = (cluster_after h w0)\<lparr>c_lbs := (c_lbs (cluster_after h w0))(lbKey lb \<mapsto>
          bump_lb v (cur\<lparr>Status := Status lb\<rparr>))\<rparr>)) h"
proof -
  let ?h = "h @ [EGetLB (lbKey lb) (Inr cur)]" and ?l = "copyStatus lb cur"
  have l: "?l = cur\<lparr>Status := Status lb\<rparr>" by (simp add: copyStatus_def)
  have "c_lbs (cluster_after ?h w0) (lbKey ?l) = Some cur" "ResourceVersion (lbMeta ?l) = ResourceVersion (lbMeta cur)"
    using cur key by (simp_all add: l)
  then obtain v where "k8s_StatusUpdate (k8s E) ?h ?l = Inr (bump_lb v (cur\<lparr>Status := Status lb\<rparr>))"
    using reliable_StatusUpdate [OF R, of ?h ?l cur] by (metis l OpenStackLoadBalancer.select_convs(3) OpenStackLoadBalancer.surjective OpenStackLoadBalancer.update_convs(3))
  then have "run_state (updateStatus_attempt E (LBObj lb)) h = (((True, None),
     LBObj (lb\<lparr>Status := Status (bump_lb v (cur\<lparr>Status := Status lb\<rparr>))\<rparr>)), ?h @ [EStatusUpdate ?l (Inr (bump_lb v (cur\<lparr>Status := Status lb\<rparr>)))])"
    using reliable_GetLB [OF R cur] by (simp add: GetLB_def StatusUpdate_def)
  from backoff_first [where f = "updateStatus_attempt E", OF reliableD(3) [OF R] this] cur key show ?thesis
    by (auto simp: updateStatusWithRetry_def wp_def put_lb_def)
qed

end
