(* ===== verification/Convergence.thy ===== *)
theory Convergence
  imports Cluster
begin

text \<open>
  What the reconcile loop of \<open>src/internal/controller/openstackloadbalancer_controller.go\<close> achieves
  against reliable servers: from any state of the services, also one in which annotations name
  resources that were deleted behind the operator's back, a bounded number of passes leads to a state
  in which every eligible service has its finalizer, its credentials, an existing port and, if asked
  for, an existing and published floating IP, and further passes keep it. Each function on the way has
  a lemma that says what it does to the cluster; \<open>rank\<close> counts the passes a service still needs.
\<close>

section \<open>How far a service is\<close>

abbreviation annotation :: "Service \<Rightarrow> string \<Rightarrow> string" where
  "annotation s k \<equiv> gmap_index (svcAnnotations s) k"

text \<open>A service that has everything: finalizer, credentials, existing port, published floating IP.\<close>

definition fip_served :: "cluster \<Rightarrow> Service \<Rightarrow> bool" where
  "fip_served w s \<longleftrightarrow> annotation s AnnotationFloatingIPID \<noteq> []
     \<and> (case c_fips w (annotation s AnnotationFloatingIPID) of None \<Rightarrow> False
        | Some f \<Rightarrow> FIP_FloatingIP f \<noteq> [] \<longrightarrow> FIP_FloatingIP f \<in> set (ExternalIPs s))"

definition port_served :: "cluster \<Rightarrow> Service \<Rightarrow> bool" where
  "port_served w s \<longleftrightarrow> annotation s AnnotationPortID \<noteq> [] \<and> annotation s AnnotationPortID \<in> c_ports w"

definition credentialed :: "Service \<Rightarrow> bool" where
  "credentialed s \<longleftrightarrow> annotation s AnnotationCredentialsSecretName \<noteq> []
     \<and> annotation s AnnotationCredentialsSecretNamespace \<noteq> []"

definition served :: "cluster \<Rightarrow> OpenStackLoadBalancerSpec \<Rightarrow> Service \<Rightarrow> bool" where
  "served w sp s \<longleftrightarrow> ServiceFinalizer \<in> set (svcFinalizers s) \<and> credentialed s \<and> port_served w s
     \<and> (CreateFloatingIP sp \<longrightarrow> fip_served w s)"

text \<open>Annotations that name a resource that does not exist.\<close>

definition stale_port :: "cluster \<Rightarrow> Service \<Rightarrow> bool" where
  "stale_port w s \<longleftrightarrow> annotation s AnnotationPortID \<noteq> [] \<and> annotation s AnnotationPortID \<notin> c_ports w"

definition stale_fip :: "cluster \<Rightarrow> Service \<Rightarrow> bool" where
  "stale_fip w s \<longleftrightarrow> annotation s AnnotationFloatingIPID \<noteq> [] \<and> c_fips w (annotation s AnnotationFloatingIPID) = None"

text \<open>The number of passes a service still needs at most.\<close>

definition rank :: "cluster \<Rightarrow> OpenStackLoadBalancerSpec \<Rightarrow> Service \<Rightarrow> nat" where
  "rank w sp s = (if served w sp s then 0
     else 1 + (if ServiceFinalizer \<in> set (svcFinalizers s) then 0 else 1) + (if stale_port w s then 1 else 0)
       + (if stale_fip w s then 1 else 0))"

lemma rank_le: "rank w sp s \<le> 4"
  by (simp add: rank_def)

lemma rank_0: "rank w sp s = 0 \<longleftrightarrow> served w sp s"
  by (simp add: rank_def)

lemma rank_lbs [simp]: "rank (w\<lparr>c_lbs := l\<rparr>) sp s = rank w sp s"
  by (simp add: rank_def served_def port_served_def fip_served_def stale_port_def stale_fip_def)

text \<open>
  \<open>changes X s s'\<close>: \<open>s'\<close> is the same service as \<open>s\<close>, with other annotations under the keys in \<open>X\<close> and
  perhaps more external IPs.
\<close>

definition changes :: "string set \<Rightarrow> Service \<Rightarrow> Service \<Rightarrow> bool" where
  "changes X s s' \<longleftrightarrow> svcKey s' = svcKey s \<and> svcType s' = svcType s \<and> LoadBalancerClass s' = LoadBalancerClass s
     \<and> Ingress s' = Ingress s \<and> DeletionTimestamp (svcMeta s') = DeletionTimestamp (svcMeta s)
     \<and> svcFinalizers s' = svcFinalizers s \<and> set (ExternalIPs s) \<subseteq> set (ExternalIPs s')
     \<and> (\<forall>k. k \<notin> X \<longrightarrow> gmap_lookup (svcAnnotations s') k = gmap_lookup (svcAnnotations s) k)"

lemma changes_refl [simp]: "changes X s s"
  by (simp add: changes_def)

lemma changes_trans: "changes X s s' \<Longrightarrow> changes Y s' s'' \<Longrightarrow> X \<union> Y \<subseteq> Z \<Longrightarrow> changes Z s s''"
  unfolding changes_def by (metis UnCI subset_iff)

lemma changes_mono: "changes X s s' \<Longrightarrow> X \<subseteq> Y \<Longrightarrow> changes Y s s'"
  unfolding changes_def by blast

lemma changes_annotation: "changes X s s' \<Longrightarrow> k \<notin> X \<Longrightarrow> annotation s' k = annotation s k"
  by (simp add: changes_def gmap_index_def)

lemma changesD:
  assumes "changes X s s'"
  shows "svcKey s' = svcKey s" "svcFinalizers s' = svcFinalizers s" "set (ExternalIPs s) \<subseteq> set (ExternalIPs s')"
    "Ingress s' = Ingress s"
  using assms by (simp_all add: changes_def)

lemma gmap_lookup_make: "gmap_make m k = gmap_lookup m k"
  by (simp add: gmap_make_def gmap_lookup_def split: option.split)

lemma setAnnotation_changes [simp]:
  "changes {k} s (bump_svc ver (setAnnotation k v s))"
  "annotation (bump_svc ver (setAnnotation k v s)) k = v"
  by (simp_all add: changes_def bump_svc_def setAnnotation_def svcSetAnnotations_def svcKey_def gmap_index_def
      gmap_lookup_def [of "Some _"] gmap_lookup_make)

lemma setAnnotations_changes:
  "changes (fst ` set kvs) s (bump_svc ver (setAnnotations kvs s))"
  by (simp add: changes_def bump_svc_def setAnnotations_def svcSetAnnotations_def svcKey_def
      gmap_lookup_def [of "Some _"] gmap_lookup_make map_add_dom_app_simps dom_map_of_conv_image_fst)

lemma setAnnotations_annotation:
  "map_of kvs k = Some v \<Longrightarrow> annotation (bump_svc ver (setAnnotations kvs s)) k = v"
  by (simp add: bump_svc_def setAnnotations_def svcSetAnnotations_def gmap_index_def gmap_lookup_def)

lemma addExternalIP_changes:
  "addExternalIP ip s = Some s' \<Longrightarrow> changes {} s (bump_svc ver s') \<and> ip \<in> set (ExternalIPs (bump_svc ver s'))"
  by (auto simp: changes_def bump_svc_def addExternalIP_def svcKey_def split: if_splits)

text \<open>\<open>grows w k s w'\<close>: only the service under \<open>k\<close> changed, to \<open>s\<close>; ports and floating IPs may have been added.\<close>

definition grows :: "cluster \<Rightarrow> NamespacedName \<Rightarrow> Service \<Rightarrow> cluster \<Rightarrow> bool" where
  "grows w k s w' \<longleftrightarrow> c_lbs w' = c_lbs w \<and> c_svcs w' = (c_svcs w)(k \<mapsto> s)
     \<and> c_ports w \<subseteq> c_ports w' \<and> c_fips w \<subseteq>\<^sub>m c_fips w'"

lemma grows_refl: "c_svcs w k = Some s \<Longrightarrow> grows w k s w"
  by (auto simp: grows_def)

lemma grows_svc: "grows w k s w' \<Longrightarrow> c_svcs w' k = Some s"
  by (simp add: grows_def)

lemma grows_trans: "grows w k s w' \<Longrightarrow> grows w' k s' w'' \<Longrightarrow> grows w k s' w''"
  unfolding grows_def by (auto intro: map_le_trans)

lemma stored_grows: "stored w k s w' \<Longrightarrow> \<exists>v. grows w k (bump_svc v s) w' \<and> c_ports w' = c_ports w \<and> c_fips w' = c_fips w"
  by (auto simp: stored_def grows_def)

lemma map_le_Some: "m \<subseteq>\<^sub>m m' \<Longrightarrow> m k = Some v \<Longrightarrow> m' k = Some v"
  unfolding map_le_def by (metis domI)

lemma served_mono:
  assumes "served w sp s" and "c_ports w \<subseteq> c_ports w'" and "c_fips w \<subseteq>\<^sub>m c_fips w'"
  shows "served w' sp s"
  using assms unfolding served_def port_served_def fip_served_def
  by (auto split: option.splits dest: map_le_Some [OF assms(3)])

lemma stale_mono:
  assumes "c_ports w \<subseteq> c_ports w'" and "c_fips w \<subseteq>\<^sub>m c_fips w'"
  shows "stale_port w' s \<Longrightarrow> stale_port w s" and "stale_fip w' s \<Longrightarrow> stale_fip w s"
proof -
  show "stale_port w' s \<Longrightarrow> stale_port w s" using assms(1) by (auto simp: stale_port_def)
  show "stale_fip w' s \<Longrightarrow> stale_fip w s"
    using map_le_Some [OF assms(2), of "annotation s AnnotationFloatingIPID"]
    by (cases "c_fips w (annotation s AnnotationFloatingIPID)") (auto simp: stale_fip_def)
qed

lemma rank_mono:
  assumes "c_ports w \<subseteq> c_ports w'" and "c_fips w \<subseteq>\<^sub>m c_fips w'"
  shows "rank w' sp s \<le> rank w sp s"
  using served_mono [OF _ assms] stale_mono [OF assms] by (auto simp: rank_def)

section \<open>The steps for one service\<close>

lemma hasAnnotation_annotation: "hasAnnotation s k \<longleftrightarrow> annotation s k \<noteq> []"
  by (auto simp: hasAnnotation_def gmap_index_def gmap_lookup_def split: option.split)

lemma wp_ensureServiceHasCredentials:
  assumes R: "reliable E w0" and cur: "c_svcs (cluster_after h w0) (svcKey svc) = Some svc"
    and ref: "refName (ApplicationCredentialSecretRef (Spec lb)) \<noteq> []" "refNamespace (ApplicationCredentialSecretRef (Spec lb)) \<noteq> []"
  shows "wp (ensureServiceHasCredentials E svc lb) (\<lambda>r h'. r = (False, None) \<and> (\<exists>s.
      grows (cluster_after h w0) (svcKey svc) s (cluster_after h' w0) \<and> credentialed s
      \<and> changes {AnnotationCredentialsSecretName, AnnotationCredentialsSecretNamespace} svc s)) h"
proof (cases "credentialed svc")
  case True
  then show ?thesis using grows_refl [OF cur]
    by (auto simp: ensureServiceHasCredentials_def hasAnnotation_annotation credentialed_def)
next
  case False
  let ?kvs = "credentialAnnotations lb"
  have d: "distinct (map fst ?kvs)" by (simp add: credentialAnnotations_def annotation_keys_distinct)
  have c: "credentialed (bump_svc v (setAnnotations ?kvs svc))"
    "changes {AnnotationCredentialsSecretName, AnnotationCredentialsSecretNamespace} svc (bump_svc v (setAnnotations ?kvs svc))" for v
    using setAnnotations_changes [of ?kvs svc v] ref
    by (simp_all add: credentialed_def setAnnotations_annotation credentialAnnotations_def annotation_keys_distinct)
  have nc: "\<not> (hasAnnotation svc AnnotationCredentialsSecretName \<and> hasAnnotation svc AnnotationCredentialsSecretNamespace)"
    using False by (simp add: hasAnnotation_annotation credentialed_def)
  show ?thesis
    unfolding ensureServiceHasCredentials_def if_not_P [OF nc]
    by (rule wp_seq [OF wp_updateMultipleServiceAnnotations [OF R cur refl d]]) (use c stored_grows in fastforce)
qed

text \<open>Network detection changes the status only.\<close>

lemma wp_detectNetworkForLB:
  assumes D: "detectable E ip"
  shows "wp (detectNetworkForLB E lb (ClientImpl E c) ip) (\<lambda>(r, lb') h'. r = (False, None)
    \<and> Spec lb' = Spec lb \<and> lbMeta lb' = lbMeta lb \<and> cluster_after h' w0 = cluster_after h w0) h"
proof -
  from D obtain a where a: "ParseIP ip = Some a" and l: "\<And>h c. \<exists>pages sns. subnet_List (gopher E) h c = Inr pages
     \<and> subnet_Extract (gopher E) pages = Inr sns \<and> (\<exists>sn \<in> set sns. subnet_covers a sn)"
    unfolding detectable_def by blast
  obtain pages sns where p: "subnet_List (gopher E) h c = Inr pages" "subnet_Extract (gopher E) pages = Inr sns"
    "\<exists>sn \<in> set sns. subnet_covers a sn" using l by blast
  then obtain sn where "List.find (subnet_covers a) sns = Some sn"
    by (cases "List.find (subnet_covers a) sns") (auto simp: find_None_iff)
  then have "DetectNetworkForIP_loop a sns = Some (Subnet_NetworkID sn, Subnet_ID sn)"
    by (simp add: DetectNetworkForIP_loop_find)
  with a p show ?thesis
    by (simp add: detectNetworkForLB_def ClientImpl_methods DetectNetworkForIP_def SubnetList_def setCondition_def Now_def)
qed

lemma wp_setCondition:
  "wp (setCondition E lb t st r m) (\<lambda>lb' h'. Spec lb' = Spec lb \<and> lbMeta lb' = lbMeta lb
     \<and> cluster_after h' w0 = cluster_after h w0) h"
  by (simp add: setCondition_def Now_def)

text \<open>
  The port: verified, created, or found missing, in which case only the annotation is cleared.
\<close>

definition port_step :: "cluster \<Rightarrow> Service \<Rightarrow> Service \<Rightarrow> bool \<Rightarrow> cluster \<Rightarrow> bool" where
  "port_step w svc cur rq w' \<longleftrightarrow> (\<exists>s. grows w (svcKey svc) s w' \<and> changes {AnnotationPortID} cur s
     \<and> c_fips w' = c_fips w
     \<and> (if rq then stale_port w svc \<and> annotation s AnnotationPortID = [] else port_served w' s))"

definition same_lb :: "OpenStackLoadBalancer \<Rightarrow> OpenStackLoadBalancer \<Rightarrow> bool" where
  "same_lb lb lb' \<longleftrightarrow> Spec lb' = Spec lb \<and> lbMeta lb' = lbMeta lb"

lemma same_lb_refl [simp]: "same_lb lb lb"
  by (simp add: same_lb_def)

lemma same_lb_trans [trans]: "same_lb a b \<Longrightarrow> same_lb b c \<Longrightarrow> same_lb a c"
  by (simp add: same_lb_def)

text \<open>The tail shared by creating a port and by creating or finding a floating IP: record it.\<close>

lemma wp_record:
  assumes R: "reliable E w0" and cur: "c_svcs (cluster_after h w0) (svcKey svc) = Some cur" and key: "svcKey cur = svcKey svc"
    and Q: "\<And>ver lb' h'. same_lb lb lb' \<Longrightarrow> cluster_after h' w0 = (cluster_after h w0)\<lparr>c_svcs :=
       (c_svcs (cluster_after h w0))(svcKey svc \<mapsto> bump_svc ver (setAnnotation k v cur))\<rparr> \<Longrightarrow> Q (ok, lb') h'"
  shows "wp (updateServiceAnnotationWithRetry E svc k v \<bind> (\<lambda>err.
      if err \<noteq> None then ret (fail err, lb)
      else do {
        _ \<leftarrow> Eventf svc reason msg;
        lb' \<leftarrow> setCondition E lb t st reason' msg';
        ret (ok, lb')
      })) Q h"
  by (rule wp_seq [OF wp_updateServiceAnnotationWithRetry [OF R cur key, of k v]])
    (auto simp: stored_def Eventf_def setCondition_def Now_def same_lb_def intro!: Q)

lemma wp_createPort:
  assumes R: "reliable E w0" and cur: "c_svcs (cluster_after h w0) (svcKey svc) = Some cur"
    and key: "svcKey cur = svcKey svc" and none: "annotation svc AnnotationPortID = []"
  shows "wp (ensurePortExists E lb svc (ClientImpl E c) ip) (\<lambda>((portID, rq, err), lb') h'. err = None
    \<and> same_lb lb lb' \<and> port_step (cluster_after h w0) svc cur rq (cluster_after h' w0)) h"
proof -
  let ?opts = "\<lparr>pco_NetworkID = LBNetworkID (Status lb), pco_Name = portNameFor svc,
            pco_FixedIPs = [(LBSubnetID (Status lb), ip)], pco_Description = portDescription svc\<rparr>"
  obtain p where p: "port_Create (gopher E) h c ?opts = Inr p" "Port_ID p \<noteq> []"
    using reliableD(2) [OF R] unfolding reliable_openstack_def by blast
  let ?h = "h @ [EPortCreate c ?opts (Inr p)]"
  let ?tags = "convertMapToTags E (resource_tags E ResourceTypePort (svcNamespace svc) (svcName svc))"
  let ?h2 = "?h @ [ETagsReplace c ''ports'' (Port_ID p) ?tags (tags_ReplaceAll (gopher E) ?h c ''ports'' (Port_ID p) ?tags)]"
  have w: "cluster_after ?h2 w0 = (cluster_after h w0)\<lparr>c_ports := insert (Port_ID p) (c_ports (cluster_after h w0))\<rparr>" by simp
  then have cur2: "c_svcs (cluster_after ?h2 w0) (svcKey svc) = Some cur" by (simp add: cur)
  have v: "run_state (CreatePort E c (LBNetworkID (Status lb)) (LBSubnetID (Status lb)) (portNameFor svc) ip (portDescription svc)
      (svcNamespace svc) (svcName svc)) h = (Inr (Port_ID p), ?h2)"
    by (simp add: CreatePort_def PortCreate_def TagsReplaceAll_def p Let_def)
  show ?thesis
    unfolding ensurePortExists_def ClientImpl_methods Let_def none
    by (simp only: simp_thms if_False, rule wp_after [OF v], simp only: sum.case)
      (rule wp_record [OF R cur2 key], use p(2) in \<open>auto simp: w grows_def port_step_def port_served_def\<close>)
qed

lemma wp_ensurePortExists:
  assumes R: "reliable E w0" and cur: "c_svcs (cluster_after h w0) (svcKey svc) = Some cur"
    and key: "svcKey cur = svcKey svc" and same: "annotation cur AnnotationPortID = annotation svc AnnotationPortID"
  shows "wp (ensurePortExists E lb svc (ClientImpl E c) ip) (\<lambda>((portID, rq, err), lb') h'. err = None
    \<and> same_lb lb lb' \<and> port_step (cluster_after h w0) svc cur rq (cluster_after h' w0)) h"
proof (cases "annotation svc AnnotationPortID = []")
  case True
  then show ?thesis by (rule wp_createPort [OF R cur key])
next
  case False
  show ?thesis
  proof (cases "annotation svc AnnotationPortID \<in> c_ports (cluster_after h w0)")
    case True
    then obtain p where "port_Get (gopher E) h c (annotation svc AnnotationPortID) = Inr p"
      using reliable_port_Get(1) [OF R] by blast
    with False True grows_refl [OF cur] same show ?thesis
      by (auto simp: ensurePortExists_def ClientImpl_methods GetPort_def PortGet_def Let_def port_step_def port_served_def)
  next
    case missing: False
    then obtain e where e: "port_Get (gopher E) h c (annotation svc AnnotationPortID) = Inl e" "IsNotFoundError e"
      using reliable_port_Get(2) [OF R] by blast
    have "c_svcs (cluster_after (h @ [EPortGet c (annotation svc AnnotationPortID) (Inl e)]) w0) (svcKey svc) = Some cur"
      by (simp add: cur)
    from wp_updateServiceAnnotationWithRetry [OF R this key, of AnnotationPortID "[]"] show ?thesis
      using False missing e
      by (simp add: ensurePortExists_def ClientImpl_methods GetPort_def PortGet_def Let_def)
        (erule wp_mono, use stored_grows in \<open>fastforce simp: stale_port_def port_step_def\<close>)
  qed
qed

text \<open>The floating IP, in the same way; an existing one is published.\<close>

definition fip_step :: "cluster \<Rightarrow> Service \<Rightarrow> Service \<Rightarrow> bool \<Rightarrow> cluster \<Rightarrow> bool" where
  "fip_step w svc cur rq w' \<longleftrightarrow> (\<exists>s. grows w (svcKey svc) s w' \<and> changes {AnnotationFloatingIPID} cur s
     \<and> c_ports w' = c_ports w
     \<and> (if rq then stale_fip w svc \<and> annotation s AnnotationFloatingIPID = [] else fip_served w' s))"

lemma wp_publishFloatingIP:
  assumes R: "reliable E w0" and cur: "c_svcs (cluster_after h w0) (svcKey svc) = Some cur" and key: "svcKey cur = svcKey svc"
  shows "wp (publishFloatingIP E svc addr) (\<lambda>r h'. r = (False, None) \<and> (\<exists>s. grows (cluster_after h w0) (svcKey svc) s (cluster_after h' w0)
    \<and> changes {} cur s \<and> c_ports (cluster_after h' w0) = c_ports (cluster_after h w0)
    \<and> c_fips (cluster_after h' w0) = c_fips (cluster_after h w0) \<and> (addr \<noteq> [] \<longrightarrow> addr \<in> set (ExternalIPs s)))) h"
proof (cases "addr = []")
  case True
  then show ?thesis using grows_refl [OF cur] by (auto simp: publishFloatingIP_def)
next
  case False
  then have p: "publishFloatingIP E svc addr = updateServiceExternalIPs E svc addr \<bind> (\<lambda>err. if err \<noteq> None then ret (True, err) else ret (False, None))"
    by (simp add: publishFloatingIP_def)
  have "addr \<in> set (ExternalIPs cur)" if "addExternalIP addr cur = None"
    using that by (simp add: addExternalIP_def split: if_splits)
  then show ?thesis
    unfolding p using grows_refl [OF cur] addExternalIP_changes [of addr cur]
    by (intro wp_seq [OF wp_updateServiceExternalIPs [OF R cur key, of addr]])
      (auto split: option.splits dest!: stored_grows)
qed

text \<open>A floating IP found or created is recorded in the annotation.\<close>

definition fip_recorded :: "cluster \<Rightarrow> Service \<Rightarrow> Service \<Rightarrow> string \<Rightarrow> cluster \<Rightarrow> bool" where
  "fip_recorded w svc cur addr w' \<longleftrightarrow> (\<exists>s f. grows w (svcKey svc) s w' \<and> changes {AnnotationFloatingIPID} cur s
     \<and> c_ports w' = c_ports w \<and> FIP_ID f \<noteq> [] \<and> annotation s AnnotationFloatingIPID = FIP_ID f
     \<and> c_fips w' (FIP_ID f) = Some f \<and> addr = FIP_FloatingIP f)"

lemma fip_recordedI:
  assumes "FIP_ID f \<noteq> []" and "c_fips w (FIP_ID f) = None \<or> c_fips w (FIP_ID f) = Some f"
    and "w' = w\<lparr>c_fips := (c_fips w)(FIP_ID f \<mapsto> f),
      c_svcs := (c_svcs w)(svcKey svc \<mapsto> bump_svc ver (setAnnotation AnnotationFloatingIPID (FIP_ID f) cur))\<rparr>"
  shows "fip_recorded w svc cur (FIP_FloatingIP f) w'"
proof -
  have "c_fips w \<subseteq>\<^sub>m (c_fips w)(FIP_ID f \<mapsto> f)" using assms(2) by (auto simp: map_le_def)
  then show ?thesis
    unfolding fip_recorded_def using assms(1,3)
    by (intro exI [of _ "bump_svc ver (setAnnotation AnnotationFloatingIPID (FIP_ID f) cur)"] exI [of _ f])
      (simp add: grows_def)
qed

lemma fip_recorded_published:
  assumes "grows w (svcKey svc) s w'" and "changes {AnnotationFloatingIPID} cur s" and "c_ports w' = c_ports w"
    and "FIP_ID f \<noteq> []" and "annotation s AnnotationFloatingIPID = FIP_ID f" and "c_fips w' (FIP_ID f) = Some f"
    and "grows w' (svcKey svc) s' w''" and "changes {} s s'" and "c_ports w'' = c_ports w'" and "c_fips w'' = c_fips w'"
    and "FIP_FloatingIP f \<noteq> [] \<longrightarrow> FIP_FloatingIP f \<in> set (ExternalIPs s')"
  shows "fip_step w svc cur False w''"
  unfolding fip_step_def
  using grows_trans [OF assms(1,7)] changes_trans [OF assms(2,8)] assms(3-6,9-11) changes_annotation [OF assms(8)]
  by (intro exI [of _ s']) (simp add: fip_served_def)

lemma fip_verified_published:
  assumes "annotation cur AnnotationFloatingIPID \<noteq> []" and "c_fips w (annotation cur AnnotationFloatingIPID) = Some f"
    and "grows w (svcKey svc) s w'" and "changes {} cur s" and "c_ports w' = c_ports w" and "c_fips w' = c_fips w"
    and "FIP_FloatingIP f \<noteq> [] \<longrightarrow> FIP_FloatingIP f \<in> set (ExternalIPs s)"
  shows "fip_step w svc cur False w'"
  unfolding fip_step_def
  using assms changes_annotation [OF assms(4)] changes_mono [OF assms(4)]
  by (intro exI [of _ s]) (simp add: fip_served_def)

lemma wp_createOrFindFloatingIP:
  assumes R: "reliable E w0" and cur: "c_svcs (cluster_after h w0) (svcKey svc) = Some cur"
    and key: "svcKey cur = svcKey svc" and net: "FloatingIPNetworkID (Spec lb) \<noteq> []"
  shows "wp (createOrFindFloatingIP E lb svc (ClientImpl E c) portID) (\<lambda>((rq, i, addr, err), lb') h'.
    \<not> rq \<and> err = None \<and> same_lb lb lb' \<and> fip_recorded (cluster_after h w0) svc cur addr (cluster_after h' w0)) h"
proof -
  obtain pages fs where l: "fip_List (gopher E) h c portID = Inr pages" "fip_Extract (gopher E) pages = Inr fs"
    and fs: "\<forall>f \<in> set fs. FIP_ID f \<noteq> [] \<and> c_fips (cluster_after h w0) (FIP_ID f) = Some f"
    using reliableD(2) [OF R] unfolding reliable_openstack_def by meson
  let ?h = "h @ [EFipList c portID (Inr pages)]"
  have cur1: "c_svcs (cluster_after ?h w0) (svcKey svc) = Some cur" by (simp add: cur)
  show ?thesis
  proof (cases fs)
    case (Cons f fs')
    then have f: "FIP_ID f \<noteq> []" "c_fips (cluster_after h w0) (FIP_ID f) = Some f" using fs by auto
    have v: "run_state (GetFloatingIPByPortID E c portID) h = (Inr (FIP_ID f, FIP_FloatingIP f), ?h)"
      by (simp add: GetFloatingIPByPortID_def FipList_def l Cons)
    show ?thesis
      unfolding createOrFindFloatingIP_def ClientImpl_methods
      by (simp only: net if_False, rule wp_after [OF v], simp only: sum.case prod.case f not_False_eq_True if_True)
        (rule wp_record [OF R cur1 key], use f in \<open>auto simp: fun_upd_idem intro: fip_recordedI\<close>)
  next
    case Nil
    have v: "run_state (GetFloatingIPByPortID E c portID) h = (Inr ([], []), ?h)"
      by (simp add: GetFloatingIPByPortID_def FipList_def l Nil)
    let ?opts = "\<lparr>fco_FloatingNetworkID = FloatingIPNetworkID (Spec lb), fco_PortID = portID, fco_Description = floatingIPDescription svc\<rparr>"
    obtain f where f: "fip_Create (gopher E) ?h c ?opts = Inr f" "FIP_ID f \<noteq> []" "c_fips (cluster_after ?h w0) (FIP_ID f) = None"
      using reliableD(2) [OF R] unfolding reliable_openstack_def by blast
    let ?h2 = "?h @ [EFipCreate c ?opts (Inr f)]"
    let ?tags = "convertMapToTags E (resource_tags E ResourceTypeFloatingIP (svcNamespace svc) (svcName svc))"
    let ?h3 = "?h2 @ [ETagsReplace c ''floatingips'' (FIP_ID f) ?tags (tags_ReplaceAll (gopher E) ?h2 c ''floatingips'' (FIP_ID f) ?tags)]"
    have u: "run_state (CreateFloatingIP_impl E c (FloatingIPNetworkID (Spec lb)) portID (floatingIPDescription svc) (svcNamespace svc) (svcName svc)) ?h
      = (Inr (FIP_ID f, FIP_FloatingIP f), ?h3)"
      using f(1) by (simp add: CreateFloatingIP_impl_def FipCreate_def TagsReplaceAll_def Let_def)
    have w: "cluster_after ?h3 w0 = (cluster_after h w0)\<lparr>c_fips := (c_fips (cluster_after h w0))(FIP_ID f \<mapsto> f)\<rparr>" by simp
    then have cur3: "c_svcs (cluster_after ?h3 w0) (svcKey svc) = Some cur" by (simp add: cur)
    from f show ?thesis
      unfolding createOrFindFloatingIP_def ClientImpl_methods
      by (simp only: net if_False, intro wp_after [OF v], simp only: sum.case prod.case simp_thms if_False)
        (rule wp_after [OF u], simp only: sum.case prod.case, rule wp_record [OF R cur3 key],
          auto simp: w intro: fip_recordedI)
  qed
qed

lemma wp_handleFloatingIP:
  assumes R: "reliable E w0" and cur: "c_svcs (cluster_after h w0) (svcKey svc) = Some cur"
    and key: "svcKey cur = svcKey svc" and net: "FloatingIPNetworkID (Spec lb) \<noteq> []"
    and same: "annotation cur AnnotationFloatingIPID = annotation svc AnnotationFloatingIPID"
  shows "wp (handleFloatingIP E lb svc (ClientImpl E c) portID) (\<lambda>((rq, err), lb') h'. err = None
    \<and> same_lb lb lb' \<and> fip_step (cluster_after h w0) svc cur rq (cluster_after h' w0)) h"
proof (cases "annotation svc AnnotationFloatingIPID = []")
  case True
  show ?thesis
    unfolding handleFloatingIP_def Let_def True
    apply (simp only: simp_thms if_False)
    apply (rule wp_seq [OF wp_createOrFindFloatingIP [OF R cur key net, of c portID]])
    apply (clarsimp simp: fip_recorded_def)
    subgoal for i lb' h' s f
      apply (rule wp_mono [OF wp_publishFloatingIP [OF R, of h' svc s "FIP_FloatingIP f"]])
      apply (auto simp: grows_svc changesD key intro: fip_recorded_published)
      done
    done
next
  case False
  show ?thesis
  proof (cases "c_fips (cluster_after h w0) (annotation svc AnnotationFloatingIPID)")
    case (Some f)
    then have g: "fip_Get (gopher E) h' c (annotation svc AnnotationFloatingIPID) = Inr f"
      if "cluster_after h' w0 = cluster_after h w0" for h'
      using reliable_fip_Get(1) [OF R] that by simp
    let ?g = "EFipGet c (annotation svc AnnotationFloatingIPID) (Inr f)"
    have cur2: "c_svcs (cluster_after (h @ [?g, ?g]) w0) (svcKey svc) = Some cur" by (simp add: cur)
    show ?thesis
      using wp_publishFloatingIP [OF R cur2 key, of "FIP_FloatingIP f"] False g [of h] g [of "h @ [?g]"] Some same
      apply (simp add: handleFloatingIP_def ClientImpl_methods GetFloatingIP_def GetFloatingIPDetails_def FipGet_def Let_def)
      apply (erule wp_mono)
      apply (auto intro: fip_verified_published)
      done
  next
    case None
    then obtain e where e: "fip_Get (gopher E) h c (annotation svc AnnotationFloatingIPID) = Inl e" "IsNotFoundError e"
      using reliable_fip_Get(2) [OF R] by blast
    have "c_svcs (cluster_after (h @ [EFipGet c (annotation svc AnnotationFloatingIPID) (Inl e)]) w0) (svcKey svc) = Some cur"
      by (simp add: cur)
    from wp_updateServiceAnnotationWithRetry [OF R this key, of AnnotationFloatingIPID "[]"] show ?thesis
      using False None e
      by (simp add: handleFloatingIP_def ClientImpl_methods GetFloatingIP_def FipGet_def Let_def)
        (erule wp_mono, use stored_grows in \<open>fastforce simp: stale_fip_def fip_step_def\<close>)
  qed
qed

section \<open>One pass over a service\<close>

text \<open>What the load balancer has to specify for its services to be served.\<close>

definition complete_spec :: "OpenStackLoadBalancerSpec \<Rightarrow> bool" where
  "complete_spec sp \<longleftrightarrow> refName (ApplicationCredentialSecretRef sp) \<noteq> [] \<and> refNamespace (ApplicationCredentialSecretRef sp) \<noteq> []
     \<and> (CreateFloatingIP sp \<longrightarrow> FloatingIPNetworkID sp \<noteq> [])"

text \<open>Same service, perhaps with more finalizers and other annotations of the operator.\<close>

definition same_service :: "Service \<Rightarrow> Service \<Rightarrow> bool" where
  "same_service s s' \<longleftrightarrow> svcKey s' = svcKey s \<and> svcType s' = svcType s \<and> LoadBalancerClass s' = LoadBalancerClass s
     \<and> Ingress s' = Ingress s \<and> DeletionTimestamp (svcMeta s') = DeletionTimestamp (svcMeta s)
     \<and> gmap_lookup (svcAnnotations s') AnnotationLoadBalancerClass = gmap_lookup (svcAnnotations s) AnnotationLoadBalancerClass"

lemma same_service_eligible: "same_service s s' \<Longrightarrow> Spec lb' = Spec lb \<Longrightarrow> eligibleService lb' s' = eligibleService lb s"
  by (simp add: same_service_def eligibleService_def isServiceMatchingLBClass_def)

lemma changes_same_service: "changes X s s' \<Longrightarrow> AnnotationLoadBalancerClass \<notin> X \<Longrightarrow> same_service s s'"
  by (simp add: changes_def same_service_def)

text \<open>
  The service came one step closer: the pass asks for another one only if it is not done, and never
  when everything was there.
\<close>

definition progress :: "cluster \<Rightarrow> OpenStackLoadBalancerSpec \<Rightarrow> Service \<Rightarrow> bool \<Rightarrow> cluster \<Rightarrow> bool" where
  "progress w sp svc rq w' \<longleftrightarrow> (\<exists>s. grows w (svcKey svc) s w' \<and> same_service svc s
     \<and> rank w' sp s \<le> rank w sp svc - 1 \<and> (\<not> rq \<longrightarrow> served w' sp s) \<and> (served w sp svc \<longrightarrow> \<not> rq))"

lemma progress_finalizer:
  assumes L: "finalizer_spec (lib E)" and st: "stored w (svcKey svc) (addServiceFinalizer E svc) w'"
    and no: "ServiceFinalizer \<notin> set (svcFinalizers svc)"
  shows "progress w sp svc True w'"
proof -
  from st obtain v where g: "grows w (svcKey svc) (bump_svc v (addServiceFinalizer E svc)) w'"
    and eq: "c_ports w' = c_ports w" "c_fips w' = c_fips w" using stored_grows by blast
  let ?s = "bump_svc v (addServiceFinalizer E svc)"
  have f: "ServiceFinalizer \<in> set (svcFinalizers ?s)" "svcAnnotations ?s = svcAnnotations svc" "same_service svc ?s"
    using L by (simp_all add: bump_svc_def addServiceFinalizer_def svcSetFinalizers_def finalizer_spec_def same_service_def svcKey_def)
  with no have "rank w' sp ?s \<le> rank w sp svc - 1" "\<not> served w sp svc"
    by (simp_all add: rank_def stale_port_def stale_fip_def eq served_def)
  with g f(3) show ?thesis unfolding progress_def by blast
qed

lemma progress_done:
  assumes "grows w (svcKey svc) s w'" and "same_service svc s" and "served w' sp s"
  shows "progress w sp svc False w'"
  using assms unfolding progress_def by (auto simp: rank_0 [THEN iffD2])

lemma progress_stale:
  assumes g: "grows w (svcKey svc) s w'" and s: "same_service svc s" and fin: "ServiceFinalizer \<in> set (svcFinalizers s)"
    and less: "stale_port w svc \<and> \<not> stale_port w' s \<and> (stale_fip w' s \<longrightarrow> stale_fip w svc) \<and> \<not> served w sp svc
      \<or> stale_fip w svc \<and> \<not> stale_fip w' s \<and> \<not> stale_port w' s \<and> \<not> served w sp svc"
  shows "progress w sp svc True w'"
  using assms unfolding progress_def by (intro exI [of _ s]) (auto simp: rank_def)

text \<open>The steps after the finalizer: credentials, then the port, then the floating IP.\<close>

abbreviation "credential_keys \<equiv> {AnnotationCredentialsSecretName, AnnotationCredentialsSecretNamespace}"

lemma credentialed_changes:
  "changes X s s' \<Longrightarrow> X \<inter> credential_keys = {} \<Longrightarrow> credentialed s' = credentialed s"
  by (simp add: credentialed_def changes_annotation)

lemma progress_port:
  assumes g1: "grows w (svcKey svc) s1 w1" and c1: "changes credential_keys svc s1"
    and fin: "ServiceFinalizer \<in> set (svcFinalizers svc)" and p: "port_step w1 svc s1 True w2"
  shows "progress w sp svc True w2"
proof -
  from p obtain s where g: "grows w1 (svcKey svc) s w2" and c: "changes {AnnotationPortID} s1 s"
    and f: "c_fips w2 = c_fips w1" and st: "stale_port w1 svc" and e: "annotation s AnnotationPortID = []"
    unfolding port_step_def by auto
  have ch: "changes (credential_keys \<union> {AnnotationPortID}) svc s" by (rule changes_trans [OF c1 c]) simp
  have "stale_port w svc" using st g1 by (auto simp: grows_def intro: stale_mono)
  moreover have "stale_fip w svc" if "stale_fip w2 s"
    using that g1 changes_annotation [OF ch] f
    by (intro stale_mono(2) [of w w1]) (auto simp: grows_def stale_fip_def annotation_keys_distinct)
  ultimately show ?thesis using e fin changesD(2) [OF ch]
    by (intro progress_stale [OF grows_trans [OF g1 g] changes_same_service [OF ch]])
      (auto simp: annotation_keys_distinct stale_port_def [of w2] stale_port_def served_def port_served_def)
qed

lemma progress_served_port:
  assumes g1: "grows w (svcKey svc) s1 w1" and c1: "changes credential_keys svc s1" and cr: "credentialed s1"
    and fin: "ServiceFinalizer \<in> set (svcFinalizers svc)" and p: "port_step w1 svc s1 False w2"
  obtains s2 where "grows w (svcKey svc) s2 w2" "changes (credential_keys \<union> {AnnotationPortID}) svc s2" "credentialed s2"
    "ServiceFinalizer \<in> set (svcFinalizers s2)" "port_served w2 s2"
proof -
  from p obtain s where g: "grows w1 (svcKey svc) s w2" and c: "changes {AnnotationPortID} s1 s" and ps: "port_served w2 s"
    unfolding port_step_def by auto
  have ch: "changes (credential_keys \<union> {AnnotationPortID}) svc s" by (rule changes_trans [OF c1 c]) simp
  show thesis
    by (rule that [OF grows_trans [OF g1 g] ch])
      (use cr c fin changesD(2) [OF ch] ps in \<open>auto simp: credentialed_changes annotation_keys_distinct\<close>)
qed

lemma progress_fip:
  assumes g2: "grows w (svcKey svc) s2 w2" and c2: "changes (credential_keys \<union> {AnnotationPortID}) svc s2"
    and cr: "credentialed s2" and fin: "ServiceFinalizer \<in> set (svcFinalizers s2)" and ps: "port_served w2 s2"
    and f: "fip_step w2 svc s2 rq w3" and fip: "CreateFloatingIP sp"
  shows "progress w sp svc rq w3"
proof -
  from f obtain s where g: "grows w2 (svcKey svc) s w3" and c: "changes {AnnotationFloatingIPID} s2 s" and pp: "c_ports w3 = c_ports w2"
    and r: "if rq then stale_fip w2 svc \<and> annotation s AnnotationFloatingIPID = [] else fip_served w3 s"
    unfolding fip_step_def by auto
  note g3 = grows_trans [OF g2 g]
  have ch: "changes (credential_keys \<union> {AnnotationPortID, AnnotationFloatingIPID}) svc s" by (rule changes_trans [OF c2 c]) auto
  have ss: "same_service svc s" by (rule changes_same_service [OF ch]) (simp add: annotation_keys_distinct)
  have s: "ServiceFinalizer \<in> set (svcFinalizers s)" "credentialed s" "port_served w3 s"
    using fin changesD(2) [OF c] cr c ps changes_annotation [OF c]
    by (auto simp: credentialed_changes annotation_keys_distinct port_served_def pp)
  show ?thesis
  proof (cases rq)
    case True
    then have st: "stale_fip w2 svc" and e: "annotation s AnnotationFloatingIPID = []" using r by auto
    have "stale_fip w svc" using st g2 by (auto simp: grows_def intro: stale_mono)
    then have "progress w sp svc True w3" using e s fip
      by (intro progress_stale [OF g3 ss]) (auto simp: stale_fip_def stale_port_def port_served_def served_def fip_served_def)
    with True show ?thesis by simp
  next
    case False
    with r s have "served w3 sp s" by (simp add: served_def)
    with progress_done [OF g3 ss] False show ?thesis by simp
  qed
qed

lemma progress_port_only:
  assumes "grows w (svcKey svc) s2 w2" and ch: "changes (credential_keys \<union> {AnnotationPortID}) svc s2" and "credentialed s2"
    and "ServiceFinalizer \<in> set (svcFinalizers s2)" and "port_served w2 s2" and "\<not> CreateFloatingIP sp"
  shows "progress w sp svc False w2"
proof (rule progress_done [OF assms(1)])
  show "same_service svc s2" by (rule changes_same_service [OF ch]) (simp add: annotation_keys_distinct)
  show "served w2 sp s2" using assms by (simp add: served_def)
qed

definition pass_post :: "cluster \<Rightarrow> history \<Rightarrow> OpenStackLoadBalancer \<Rightarrow> Service \<Rightarrow>
    (bool \<times> error option) \<times> OpenStackLoadBalancer \<Rightarrow> history \<Rightarrow> bool" where
  "pass_post w0 h lb svc = (\<lambda>((rq, err), lb') h'. err = None \<and> same_lb lb lb'
     \<and> progress (cluster_after h w0) (Spec lb) svc rq (cluster_after h' w0))"

lemma pass_postI:
  "same_lb lb lb' \<Longrightarrow> progress (cluster_after h w0) (Spec lb) svc rq (cluster_after h' w0) \<Longrightarrow>
     pass_post w0 h lb svc ((rq, None), lb') h'"
  by (simp add: pass_post_def)

lemma wp_service_fip:
  assumes R: "reliable E w0" and g: "grows (cluster_after h0 w0) (svcKey svc) s2 (cluster_after h w0)"
    and ch: "changes (credential_keys \<union> {AnnotationPortID}) svc s2" and cr: "credentialed s2"
    and fin: "ServiceFinalizer \<in> set (svcFinalizers s2)" and ps: "port_served (cluster_after h w0) s2"
    and C: "complete_spec (Spec lb)" and lb: "same_lb lb lb4"
  shows "wp (if CreateFloatingIP (Spec lb4) then do {
                ((rq5, err5), lb5) \<leftarrow> handleFloatingIP E lb4 svc (ClientImpl E c) portID;
                if rq5 \<or> err5 \<noteq> None then ret ((rq5, err5), lb5) else ret ((False, None), lb5)
              }
              else ret ((False, None), lb4)) (pass_post w0 h0 lb svc) h"
proof (cases "CreateFloatingIP (Spec lb)")
  case False
  with lb progress_port_only [OF g ch cr fin ps] show ?thesis by (simp add: same_lb_def pass_post_def)
next
  case True
  have key: "svcKey s2 = svcKey svc" by (rule changesD [OF ch])
  have net: "FloatingIPNetworkID (Spec lb4) \<noteq> []" using C lb True by (simp add: complete_spec_def same_lb_def)
  have same: "annotation s2 AnnotationFloatingIPID = annotation svc AnnotationFloatingIPID"
    by (rule changes_annotation [OF ch]) (simp add: annotation_keys_distinct)
  have "wp (handleFloatingIP E lb4 svc (ClientImpl E c) portID \<bind> (\<lambda>((rq5, err5), lb5).
      if rq5 \<or> err5 \<noteq> None then ret ((rq5, err5), lb5) else ret ((False, None), lb5))) (pass_post w0 h0 lb svc) h"
    by (rule wp_seq [OF wp_handleFloatingIP [OF R grows_svc [OF g] key net same]])
      (auto intro!: pass_postI progress_fip [OF g ch cr fin ps _ True] intro: same_lb_trans [OF lb])
  with True lb show ?thesis by (simp add: same_lb_def)
qed

lemma wp_service_port:
  assumes R: "reliable E w0" and g: "grows (cluster_after h0 w0) (svcKey svc) s1 (cluster_after h w0)"
    and ch: "changes credential_keys svc s1" and cr: "credentialed s1"
    and fin: "ServiceFinalizer \<in> set (svcFinalizers svc)" and C: "complete_spec (Spec lb)" and lb: "same_lb lb lb3"
  shows "wp (do {
              ((portID, rq4, err4), lb4) \<leftarrow> ensurePortExists E lb3 svc (ClientImpl E c) ip;
              if rq4 \<or> err4 \<noteq> None then ret ((rq4, err4), lb4)
              else if CreateFloatingIP (Spec lb4) then do {
                ((rq5, err5), lb5) \<leftarrow> handleFloatingIP E lb4 svc (ClientImpl E c) portID;
                if rq5 \<or> err5 \<noteq> None then ret ((rq5, err5), lb5) else ret ((False, None), lb5)
              }
              else ret ((False, None), lb4)
            }) (pass_post w0 h0 lb svc) h"
proof -
  have key: "svcKey s1 = svcKey svc" by (rule changesD [OF ch])
  have same: "annotation s1 AnnotationPortID = annotation svc AnnotationPortID"
    by (rule changes_annotation [OF ch]) (simp add: annotation_keys_distinct)
  show ?thesis
  proof (rule wp_seq [OF wp_ensurePortExists [OF R grows_svc [OF g] key same]], clarify, goal_cases)
    case (1 portID rq err lb4 h4)
    show ?case
    proof (cases rq)
      case True
      with 1 progress_port [OF g ch fin] lb show ?thesis by (auto intro: pass_postI same_lb_trans)
    next
      case False
      with 1 obtain s2 where "grows (cluster_after h0 w0) (svcKey svc) s2 (cluster_after h4 w0)"
        "changes (credential_keys \<union> {AnnotationPortID}) svc s2" "credentialed s2"
        "ServiceFinalizer \<in> set (svcFinalizers s2)" "port_served (cluster_after h4 w0) s2"
        using progress_served_port [OF g ch cr fin] by metis
      from wp_service_fip [OF R this C same_lb_trans [OF lb]] 1 False show ?thesis by simp
    qed
  qed
qed

lemma wp_processService:
  assumes R: "reliable E w0" and cur: "c_svcs (cluster_after h w0) (svcKey svc) = Some svc"
    and el: "eligibleService lb svc" and C: "complete_spec (Spec lb)" and D: "detectable E ip"
  shows "wp (processService E lb svc (ClientImpl E c) ip) (pass_post w0 h lb svc) h"
proof -
  have live: "IsZero (DeletionTimestamp (svcMeta svc))" using el by (simp add: eligibleService_def)
  have L: "finalizer_spec (lib E)" by (rule reliableD [OF R])
  show ?thesis
  proof (cases "ServiceFinalizer \<in> set (svcFinalizers svc)")
    case False
    have k: "svcKey (addServiceFinalizer E svc) = svcKey svc" "Ingress (addServiceFinalizer E svc) = Ingress svc"
      by (simp_all add: addServiceFinalizer_def) (simp add: svcSetFinalizers_def)
    have u: "wp (updateResourceWithRetry E (SvcObj (addServiceFinalizer E svc))) (\<lambda>err h'. err = None
        \<and> stored (cluster_after h w0) (svcKey svc) (addServiceFinalizer E svc) (cluster_after h' w0)) h"
      using wp_updateResource_svc [OF R, of h "addServiceFinalizer E svc" svc] cur k by simp
    from False L have n: "\<not> ContainsFinalizer (lib E) (svcFinalizers svc) ServiceFinalizer" by (simp add: finalizer_spec_def)
    show ?thesis
      unfolding processService_def ensureServiceHasFinalizer_def using live n
      by simp (rule wp_mono [OF u], auto intro!: pass_postI progress_finalizer [OF L _ False])
  next
    case True
    with L have n: "ContainsFinalizer (lib E) (svcFinalizers svc) ServiceFinalizer" by (simp add: finalizer_spec_def)
    have ref: "refName (ApplicationCredentialSecretRef (Spec lb)) \<noteq> []" "refNamespace (ApplicationCredentialSecretRef (Spec lb)) \<noteq> []"
      using C by (simp_all add: complete_spec_def)
    show ?thesis
      unfolding processService_def ensureServiceHasFinalizer_def
      apply (simp add: live n del: wp_bind not_None_eq)
      apply (rule wp_seq [OF wp_ensureServiceHasCredentials [OF R cur ref]])
      apply (clarsimp simp del: wp_bind not_None_eq)
      apply (rule wp_seq [OF wp_detectNetworkForLB [where ?w0.0 = w0, OF D]])
      apply (clarsimp simp del: wp_bind not_None_eq)
      apply (rule wp_service_port [OF R _ _ _ True C])
      apply (auto simp: same_lb_def)
      done
  qed
qed

section \<open>One pass over all services\<close>

text \<open>Every service in \<open>S\<close> came one step closer, the others are as before.\<close>

definition advanced :: "cluster \<Rightarrow> OpenStackLoadBalancerSpec \<Rightarrow> Service set \<Rightarrow> cluster \<Rightarrow> bool" where
  "advanced w sp S w' \<longleftrightarrow> c_lbs w' = c_lbs w \<and> c_ports w \<subseteq> c_ports w' \<and> c_fips w \<subseteq>\<^sub>m c_fips w'
     \<and> (\<forall>k. k \<notin> svcKey ` S \<longrightarrow> c_svcs w' k = c_svcs w k)
     \<and> (\<forall>s \<in> S. \<exists>s'. c_svcs w' (svcKey s) = Some s' \<and> same_service s s' \<and> rank w' sp s' \<le> rank w sp s - 1)"

lemma advanced_empty [simp]: "advanced w sp {} w"
  by (simp add: advanced_def)

lemma progress_advanced: "progress w sp svc rq w' \<Longrightarrow> advanced w sp {svc} w'"
  by (auto simp: progress_def advanced_def grows_def)

lemma advanced_trans:
  assumes a: "advanced w sp S w1" and b: "advanced w1 sp T w2" and disj: "svcKey ` S \<inter> svcKey ` T = {}"
  shows "advanced w sp (S \<union> T) w2"
  unfolding advanced_def
proof (intro conjI ballI allI impI)
  show "c_lbs w2 = c_lbs w" "c_ports w \<subseteq> c_ports w2" "c_fips w \<subseteq>\<^sub>m c_fips w2"
    using a b by (auto simp: advanced_def intro: map_le_trans)
  show "c_svcs w2 k = c_svcs w k" if "k \<notin> svcKey ` (S \<union> T)" for k
    using a b that by (simp add: advanced_def image_Un)
next
  fix s assume "s \<in> S \<union> T"
  then consider "s \<in> S" | "s \<in> T" by blast
  then show "\<exists>s'. c_svcs w2 (svcKey s) = Some s' \<and> same_service s s' \<and> rank w2 sp s' \<le> rank w sp s - 1"
  proof cases
    case 1
    with a obtain s' where s': "c_svcs w1 (svcKey s) = Some s'" "same_service s s'" "rank w1 sp s' \<le> rank w sp s - 1"
      unfolding advanced_def by blast
    moreover have "c_svcs w2 (svcKey s) = c_svcs w1 (svcKey s)" using b 1 disj unfolding advanced_def by blast
    moreover have "rank w2 sp s' \<le> rank w1 sp s'" using b by (intro rank_mono) (auto simp: advanced_def)
    ultimately show ?thesis by auto
  next
    case 2
    with b obtain s' where s': "c_svcs w2 (svcKey s) = Some s'" "same_service s s'" "rank w2 sp s' \<le> rank w1 sp s - 1"
      unfolding advanced_def by blast
    moreover have "rank w1 sp s \<le> rank w sp s" using a by (intro rank_mono) (auto simp: advanced_def)
    ultimately show ?thesis by (meson diff_le_mono le_trans)
  qed
qed

definition loop_post :: "cluster \<Rightarrow> history \<Rightarrow> loop_state \<Rightarrow> Service list \<Rightarrow> loop_state \<Rightarrow> history \<Rightarrow> bool" where
  "loop_post w0 h st svcs st' h' \<longleftrightarrow> same_lb (ls_lb st) (ls_lb st') \<and> lastError st' = lastError st
     \<and> advanced (cluster_after h w0) (Spec (ls_lb st)) {s \<in> set svcs. eligibleService (ls_lb st) s} (cluster_after h' w0)
     \<and> (ls_needsRequeue st' \<longrightarrow> ls_needsRequeue st
          \<or> (\<exists>s \<in> set svcs. eligibleService (ls_lb st) s \<and> \<not> served (cluster_after h w0) (Spec (ls_lb st)) s))"

lemma eligible_same_lb: "same_lb lb lb' \<Longrightarrow> eligibleService lb' s = eligibleService lb s"
  by (simp add: same_lb_def eligibleService_def)

lemma loop_post_Cons:
  assumes st: "st1 = st\<lparr>ls_lb := lb1, lastError := lastError st, ls_needsRequeue := (if rq then True else ls_needsRequeue st), processedAtLeastOne := True\<rparr>"
    and el: "eligibleService (ls_lb st) svc" and p: "pass_post w0 h (ls_lb st) svc ((rq, None), lb1) h1"
    and l: "loop_post w0 h1 st1 svcs st' h'" and d: "svcKey svc \<notin> svcKey ` set svcs"
  shows "loop_post w0 h st (svc # svcs) st' h'"
proof -
  let ?sp = "Spec (ls_lb st)"
  have lb: "same_lb (ls_lb st) lb1" and pr: "progress (cluster_after h w0) ?sp svc rq (cluster_after h1 w0)"
    using p by (simp_all add: pass_post_def)
  have sp: "Spec lb1 = ?sp" using lb by (simp add: same_lb_def)
  have st1: "ls_lb st1 = lb1" "lastError st1 = lastError st" "ls_needsRequeue st1 = (rq \<or> ls_needsRequeue st)" by (simp_all add: st)
  let ?S = "{s \<in> set svcs. eligibleService (ls_lb st) s}"
  have "advanced (cluster_after h1 w0) ?sp ?S (cluster_after h' w0)"
    using l lb by (simp add: loop_post_def st1 sp eligible_same_lb)
  from advanced_trans [OF progress_advanced [OF pr] this] d
  have "advanced (cluster_after h w0) ?sp ({svc} \<union> ?S) (cluster_after h' w0)" by auto
  moreover have "{svc} \<union> ?S = {s \<in> set (svc # svcs). eligibleService (ls_lb st) s}" using el by auto
  moreover have "\<not> served (cluster_after h w0) ?sp s" if "\<not> served (cluster_after h1 w0) ?sp s" for s
    using that pr served_mono [of "cluster_after h w0" ?sp s "cluster_after h1 w0"] by (auto simp: progress_def grows_def)
  moreover have "rq \<longrightarrow> \<not> served (cluster_after h w0) ?sp svc" using pr by (auto simp: progress_def)
  ultimately show ?thesis
    using l lb el unfolding loop_post_def
    by (auto simp: st1 sp eligible_same_lb intro: same_lb_trans)
qed

lemma Reconcile_loop_Cons:
  "Reconcile_loop E cl st (svc # svcs) =
     (if \<not> eligibleService (ls_lb st) svc then Reconcile_loop E cl st svcs
      else processService E (ls_lb st) svc cl (hd (Ingress svc)) \<bind> (\<lambda>((rq, err), lb').
        Reconcile_loop E cl (st\<lparr>ls_lb := lb', lastError := (if err \<noteq> None then err else lastError st),
          ls_needsRequeue := (if rq then True else ls_needsRequeue st), processedAtLeastOne := True\<rparr>) svcs))"
  by (simp add: Reconcile_loop_def) (auto intro!: bind_eqI split: prod.split)

lemma wp_Reconcile_loop:
  assumes R: "reliable E w0" and C: "complete_spec (Spec (ls_lb st))"
    and "\<And>s. s \<in> set svcs \<Longrightarrow> c_svcs (cluster_after h w0) (svcKey s) = Some s"
    and "\<And>s. s \<in> set svcs \<Longrightarrow> eligibleService (ls_lb st) s \<Longrightarrow> detectable E (hd (Ingress s))"
    and "distinct (map svcKey svcs)"
  shows "wp (Reconcile_loop E (ClientImpl E c) st svcs) (loop_post w0 h st svcs) h"
  using assms(2-)
proof (induction svcs arbitrary: st h)
  case Nil
  show ?case by (simp add: Reconcile_loop_def loop_post_def)
next
  case (Cons svc svcs)
  show ?case
  proof (cases "eligibleService (ls_lb st) svc")
    case False
    then have "{s \<in> set (svc # svcs). eligibleService (ls_lb st) s} = {s \<in> set svcs. eligibleService (ls_lb st) s}" by auto
    then have "loop_post w0 h st svcs = loop_post w0 h st (svc # svcs)"
      using False by (auto simp: loop_post_def fun_eq_iff)
    with Cons.IH [of st h] Cons.prems False show ?thesis by (simp add: Reconcile_loop_Cons)
  next
    case True
    have p: "wp (processService E (ls_lb st) svc (ClientImpl E c) (hd (Ingress svc))) (pass_post w0 h (ls_lb st) svc) h"
      using Cons.prems True by (intro wp_processService [OF R]) auto
    have "wp (processService E (ls_lb st) svc (ClientImpl E c) (hd (Ingress svc)) \<bind> (\<lambda>((rq, err), lb').
        Reconcile_loop E (ClientImpl E c) (st\<lparr>ls_lb := lb', lastError := (if err \<noteq> None then err else lastError st),
          ls_needsRequeue := (if rq then True else ls_needsRequeue st), processedAtLeastOne := True\<rparr>) svcs))
       (loop_post w0 h st (svc # svcs)) h"
    proof (rule wp_seq [OF p], clarify, goal_cases)
      case (1 rq err lb1 h1)
      then have err: "err = None" and lb: "same_lb (ls_lb st) lb1"
        and pr: "progress (cluster_after h w0) (Spec (ls_lb st)) svc rq (cluster_after h1 w0)"
        by (simp_all add: pass_post_def)
      let ?st = "st\<lparr>ls_lb := lb1, lastError := lastError st, ls_needsRequeue := (if rq then True else ls_needsRequeue st), processedAtLeastOne := True\<rparr>"
      have "c_svcs (cluster_after h1 w0) (svcKey s) = Some s" if "s \<in> set svcs" for s
      proof -
        have "svcKey s \<noteq> svcKey svc" using imageI [OF that, of svcKey] Cons.prems(4) by auto
        with pr Cons.prems(2) [of s] that show ?thesis by (auto simp: progress_def grows_def)
      qed
      moreover have "complete_spec (Spec (ls_lb ?st))" using Cons.prems(1) lb by (simp add: same_lb_def)
      moreover have "detectable E (hd (Ingress s))" if "s \<in> set svcs" "eligibleService (ls_lb ?st) s" for s
        using Cons.prems(3) [of s] that lb by (simp add: eligible_same_lb)
      moreover have "distinct (map svcKey svcs)" using Cons.prems(4) by simp
      ultimately have "wp (Reconcile_loop E (ClientImpl E c) ?st svcs) (loop_post w0 h1 ?st svcs) h1" by (intro Cons.IH)
      then have "wp (Reconcile_loop E (ClientImpl E c) ?st svcs) (loop_post w0 h st (svc # svcs)) h1"
        by (rule wp_mono) (rule loop_post_Cons [OF refl True 1 [unfolded err]], use Cons.prems(4) in simp_all)
      then show ?case by (simp add: err)
    qed
    with True show ?thesis by (simp add: Reconcile_loop_Cons)
  qed
qed

section \<open>Passes of the reconciler\<close>

lemma wp_getOpenStackClient:
  assumes "reliable_login E (Spec lb)"
  shows "wp (getOpenStackClient E lb) (\<lambda>r h'. \<exists>c. r = Inr (ClientImpl E c) \<and> cluster_after h' w0 = cluster_after h w0) h"
proof -
  let ?k = "\<lparr>nnName = refName (ApplicationCredentialSecretRef (Spec lb)), nnNamespace = refNamespace (ApplicationCredentialSecretRef (Spec lb))\<rparr>"
  obtain sec where sec: "k8s_GetSecret (k8s E) h ?k = Inr sec" "credentials_complete sec"
    using assms unfolding reliable_login_def by blast
  have env: "os_Getenv (sys E) ''OPENSTACK_CA_CERT_PATH'' = []" and auth: "\<And>h pc ao. os_Authenticate (gopher E) h pc ao = None"
    using assms by (simp_all add: reliable_login_def)
  let ?h = "h @ [EGetSecret ?k (Inr sec)]"
  obtain pc where pc: "os_NewClient (gopher E) ?h (gmap_index (Data sec) ''OS_AUTH_URL'') = Inr pc"
    using assms unfolding reliable_login_def by blast
  have nc: "os_NewNetworkV2 (gopher E) h pc r \<noteq> Inl e" for h r e
    using assms unfolding reliable_login_def by (metis sum.distinct(1))
  show ?thesis
    unfolding getOpenStackClient_def NewClient_def createHTTPTransport_def
    using sec(2) pc nc
    by (auto simp: GetSecret_def sec(1) credentials_complete_def Let_def env NewProvider_def Authenticate_def auth
        NewNetworkV2_def split: sum.split)
qed

text \<open>What holds of the stored load balancer between passes.\<close>

definition lb_in :: "cluster \<Rightarrow> NamespacedName \<Rightarrow> OpenStackLoadBalancerSpec \<Rightarrow> OpenStackLoadBalancer \<Rightarrow> bool" where
  "lb_in w k sp lb \<longleftrightarrow> c_lbs w k = Some lb \<and> lbKey lb = k \<and> Spec lb = sp \<and> IsZero (DeletionTimestamp (lbMeta lb))
     \<and> OpenstackLBFinalizer \<in> set (lbFinalizers lb)"

text \<open>The services of the class described by a specification.\<close>

definition clients :: "cluster \<Rightarrow> OpenStackLoadBalancer \<Rightarrow> Service set" where
  "clients w lb = {s \<in> ran (c_svcs w). eligibleService lb s}"

definition pass_result :: "cluster \<Rightarrow> history \<Rightarrow> NamespacedName \<Rightarrow> OpenStackLoadBalancer \<Rightarrow> Result \<times> error option \<Rightarrow> history \<Rightarrow> bool" where
  "pass_result w0 h k lb r h' \<longleftrightarrow> snd r = None \<and> (\<exists>lb'. lb_in (cluster_after h' w0) k (Spec lb) lb')
     \<and> (\<exists>w. advanced (cluster_after h w0) (Spec lb) (clients (cluster_after h w0) lb) w
          \<and> (\<exists>lbs. cluster_after h' w0 = w\<lparr>c_lbs := lbs\<rparr>))
     \<and> ((\<forall>s \<in> clients (cluster_after h w0) lb. served (cluster_after h w0) (Spec lb) s) \<longrightarrow> fst r = noRequeue)"

lemma wp_Reconcile_status:
  "wp (Reconcile_status E st) (\<lambda>lb' h'. same_lb (ls_lb st) lb' \<and> cluster_after h' w0 = cluster_after h w0) h"
  by (auto simp: Reconcile_status_def setCondition_def Now_def Let_def same_lb_def split: option.split)

lemma wp_reconcile_tail:
  assumes R: "reliable E w0" and lbi: "lb_in (cluster_after h w0) k (Spec lb) cur" and lb: "same_lb cur lb"
    and S: "{s \<in> set svcs. eligibleService lb s} = clients (cluster_after h w0) lb"
    and l: "loop_post w0 h1 st svcs st' h2" and h1: "cluster_after h1 w0 = cluster_after h w0"
    and st: "ls_lb st = lb" "\<not> ls_needsRequeue st"
  shows "wp (do {
             lb' \<leftarrow> Reconcile_status E st';
             (err, _) \<leftarrow> updateStatusWithRetry E lb';
             if err \<noteq> None then ret (noRequeue, err)
             else if ls_needsRequeue st' then ret (requeue, None)
             else ret (noRequeue, None)
           }) (pass_result w0 h k lb) h2"
proof (rule wp_seq [OF wp_Reconcile_status [where ?w0.0 = w0]], clarify, goal_cases)
  case (1 lb2 h3)
  let ?w = "cluster_after h w0" and ?w3 = "cluster_after h3 w0"
  have adv: "advanced ?w (Spec lb) (clients ?w lb) ?w3"
    and rq: "ls_needsRequeue st' \<longrightarrow> (\<exists>s \<in> clients ?w lb. \<not> served ?w (Spec lb) s)"
    and lb2: "same_lb lb lb2"
    using l 1 S by (auto simp: loop_post_def st h1 same_lb_def)
  have k: "lbKey lb2 = k" "lbKey cur = k" "c_lbs ?w3 k = Some cur"
    using lb2 lb lbi adv by (auto simp: lb_in_def same_lb_def lbKey_def advanced_def)
  have u: "wp (updateStatusWithRetry E lb2) (\<lambda>r h'. fst r = None
    \<and> (\<exists>v. cluster_after h' w0 = ?w3\<lparr>c_lbs := (c_lbs ?w3)(k \<mapsto> bump_lb v (cur\<lparr>Status := Status lb2\<rparr>))\<rparr>)) h3"
    using wp_updateStatusWithRetry [OF R, of h3 lb2 cur] k by simp
  have "lb_in (?w3\<lparr>c_lbs := (c_lbs ?w3)(k \<mapsto> bump_lb v (cur\<lparr>Status := Status lb2\<rparr>))\<rparr>) k (Spec lb)
      (bump_lb v (cur\<lparr>Status := Status lb2\<rparr>))" for v
    using lbi by (simp add: lb_in_def bump_lb_def lbKey_def)
  with adv rq show ?case
    by (intro wp_seq [OF u]) (fastforce simp: pass_result_def)
qed

lemma wp_reconcileLB:
  assumes R: "reliable E w0" and A: "reliable_login E (Spec lb)" and C: "complete_spec (Spec lb)"
    and lbi: "lb_in (cluster_after h w0) k (Spec lb) cur" and lb: "same_lb cur lb"
    and keys: "\<And>k s. c_svcs (cluster_after h w0) k = Some s \<Longrightarrow> svcKey s = k"
    and D: "\<And>s. s \<in> clients (cluster_after h w0) lb \<Longrightarrow> detectable E (hd (Ingress s))"
  shows "wp (reconcileLB E lb) (pass_result w0 h k lb) h"
  unfolding reconcileLB_def
proof (rule wp_seq [OF wp_getOpenStackClient [where ?w0.0 = w0, OF A]], clarify, goal_cases)
  case (1 r h1 c)
  obtain svcs where l: "k8s_ListSvcs (k8s E) h1 = Inr svcs" "distinct (map svcKey svcs)" "set svcs = ran (c_svcs (cluster_after h w0))"
    using reliable_ListSvcs [OF R, of h1] 1 by metis
  let ?st = "\<lparr>ls_lb = lb, processedAtLeastOne = False, lastError = None, ls_needsRequeue = False\<rparr>"
  let ?h1 = "h1 @ [EListSvcs (Inr svcs)]"
  have S: "{s \<in> set svcs. eligibleService lb s} = clients (cluster_after h w0) lb" by (simp add: l clients_def)
  have "wp (Reconcile_loop E (ClientImpl E c) ?st svcs) (loop_post w0 ?h1 ?st svcs) ?h1"
  proof (rule wp_Reconcile_loop [OF R _ _ _ l(2)])
    show "complete_spec (Spec (ls_lb ?st))" using C by simp
    show "c_svcs (cluster_after ?h1 w0) (svcKey s) = Some s" if "s \<in> set svcs" for s
      using that keys by (auto simp: l 1 ran_def)
    show "detectable E (hd (Ingress s))" if "s \<in> set svcs" "eligibleService (ls_lb ?st) s" for s
      using that D S by auto
  qed
  from wp_seq [OF this wp_reconcile_tail [OF R lbi lb S, where ?h1.0 = ?h1 and st = ?st]] 1
  have tail: "wp (Reconcile_loop E (ClientImpl E c) ?st svcs \<bind> (\<lambda>st. Reconcile_status E st \<bind> (\<lambda>lb'.
      updateStatusWithRetry E lb' \<bind> (\<lambda>(err, _). if err \<noteq> None then ret (noRequeue, err)
        else if ls_needsRequeue st then ret (requeue, None) else ret (noRequeue, None))))) (pass_result w0 h k lb) ?h1"
    by simp
  have v: "run_state (ListSvcs E) h1 = (Inr svcs, ?h1)" by (simp add: ListSvcs_def l(1))
  show ?case by (simp only: sum.case, rule wp_after [OF v], simp only: sum.case) (rule tail)
qed

text \<open>
  The state between passes: the load balancer is stored with its finalizer, its services need at most
  \<open>n\<close> more passes each, and they are the services of the beginning.
\<close>

definition keyed :: "cluster \<Rightarrow> bool" where
  "keyed w \<longleftrightarrow> (\<forall>k s. c_svcs w k = Some s \<longrightarrow> svcKey s = k)"

definition settling :: "env \<Rightarrow> cluster \<Rightarrow> NamespacedName \<Rightarrow> OpenStackLoadBalancer \<Rightarrow> cluster \<Rightarrow> nat \<Rightarrow> bool" where
  "settling E w k lb w' n \<longleftrightarrow> (\<exists>lb'. lb_in w' k (Spec lb) lb')
     \<and> keyed w'
     \<and> (\<forall>s \<in> clients w' lb. detectable E (hd (Ingress s)) \<and> rank w' (Spec lb) s \<le> n)
     \<and> (\<forall>k s. c_svcs w k = Some s \<and> eligibleService lb s \<longrightarrow> (\<exists>s'. c_svcs w' k = Some s' \<and> same_service s s'))"

lemma same_service_trans: "same_service a b \<Longrightarrow> same_service b c \<Longrightarrow> same_service a c"
  by (simp add: same_service_def)

lemma clients_same_lb: "Spec lb' = Spec lb \<Longrightarrow> clients w lb' = clients w lb"
  by (simp add: clients_def eligibleService_def)

lemma settling_mono: "settling E w k lb w' n \<Longrightarrow> n \<le> m \<Longrightarrow> settling E w k lb w' m"
  unfolding settling_def by (meson le_trans)

lemma same_service_refl [simp]: "same_service s s"
  by (simp add: same_service_def)

text \<open>After a pass every stored service is one of before, and closer if it is a client.\<close>

lemma advanced_step:
  assumes keys: "keyed w1" and a: "advanced w1 (Spec lb) (clients w1 lb) w2"
    and s': "c_svcs w2 k = Some s'"
  shows "\<exists>s. c_svcs w1 k = Some s \<and> same_service s s' \<and> (eligibleService lb s' \<longrightarrow> s \<in> clients w1 lb
      \<and> rank w2 (Spec lb) s' \<le> rank w1 (Spec lb) s - 1)"
proof (cases "k \<in> svcKey ` clients w1 lb")
  case True
  then obtain s where s: "s \<in> clients w1 lb" "k = svcKey s" by blast
  then have "c_svcs w1 k = Some s" using keys by (auto simp: keyed_def clients_def ran_def)
  moreover have "same_service s s'" "rank w2 (Spec lb) s' \<le> rank w1 (Spec lb) s - 1"
    using a s s' unfolding advanced_def by auto
  ultimately show ?thesis using s(1) by blast
next
  case False
  with a s' have s: "c_svcs w1 k = Some s'" by (simp add: advanced_def)
  moreover have "s' \<notin> clients w1 lb" using False keys s unfolding keyed_def by blast
  ultimately show ?thesis by (auto simp: clients_def ran_def)
qed

lemma advanced_kept:
  assumes keys: "keyed w1" and a: "advanced w1 (Spec lb) (clients w1 lb) w2"
    and s: "c_svcs w1 k = Some s"
  shows "\<exists>s'. c_svcs w2 k = Some s' \<and> same_service s s'"
proof (cases "k \<in> svcKey ` clients w1 lb")
  case True
  then obtain x where x: "x \<in> clients w1 lb" "k = svcKey x" by blast
  then have "c_svcs w1 k = Some x" using keys by (auto simp: keyed_def clients_def ran_def)
  with s have "x = s" by simp
  with a x show ?thesis unfolding advanced_def by blast
next
  case False
  with a s show ?thesis by (simp add: advanced_def)
qed

lemma advanced_settling:
  assumes s: "settling E w k lb w1 n" and a: "advanced w1 (Spec lb) (clients w1 lb) w2"
    and lb: "lb_in (w2\<lparr>c_lbs := lbs\<rparr>) k (Spec lb) lb'"
  shows "settling E w k lb (w2\<lparr>c_lbs := lbs\<rparr>) (n - 1)"
proof -
  have keys: "keyed w1" and
    cl: "\<And>s. s \<in> clients w1 lb \<Longrightarrow> detectable E (hd (Ingress s)) \<and> rank w1 (Spec lb) s \<le> n"
    using s by (auto simp: settling_def)
  note step = advanced_step [OF keys a] and kept = advanced_kept [OF keys a]
  show ?thesis
    unfolding settling_def
  proof (intro conjI allI ballI impI)
    show "\<exists>lb'. lb_in (w2\<lparr>c_lbs := lbs\<rparr>) k (Spec lb) lb'" using lb by blast
    show "keyed (w2\<lparr>c_lbs := lbs\<rparr>)"
      using step keys by (fastforce simp: keyed_def same_service_def)
    show "\<exists>s'. c_svcs (w2\<lparr>c_lbs := lbs\<rparr>) k' = Some s' \<and> same_service s0 s'" if s0: "c_svcs w k' = Some s0 \<and> eligibleService lb s0" for k' s0
    proof -
      obtain s1 where s1: "c_svcs w1 k' = Some s1" "same_service s0 s1" using s s0 unfolding settling_def by blast
      with kept [OF s1(1)] show ?thesis by (auto intro: same_service_trans)
    qed
    fix s assume "s \<in> clients (w2\<lparr>c_lbs := lbs\<rparr>) lb"
    then obtain k' where k': "c_svcs w2 k' = Some s" "eligibleService lb s" by (auto simp: clients_def ran_def)
    then obtain s1 where s1: "s1 \<in> clients w1 lb" "same_service s1 s" "rank w2 (Spec lb) s \<le> rank w1 (Spec lb) s1 - 1"
      using step [of k' s] by blast
    show "detectable E (hd (Ingress s))" using cl [OF s1(1)] s1(2) by (simp add: same_service_def)
    have "rank w1 (Spec lb) s1 - 1 \<le> n - 1" using cl [OF s1(1)] by (intro diff_le_mono) simp
    with s1(3) show "rank (w2\<lparr>c_lbs := lbs\<rparr>) (Spec lb) s \<le> n - 1" by simp
  qed
qed

text \<open>A pass of \<open>Reconcile\<close>.\<close>

definition pass_settles :: "env \<Rightarrow> cluster \<Rightarrow> cluster \<Rightarrow> NamespacedName \<Rightarrow> OpenStackLoadBalancer \<Rightarrow> nat \<Rightarrow>
    Result \<times> error option \<Rightarrow> history \<Rightarrow> bool" where
  "pass_settles E w0 w k lb n r h' \<longleftrightarrow> snd r = None \<and> settling E w k lb (cluster_after h' w0) (n - 1)
     \<and> (n = 0 \<longrightarrow> fst r = noRequeue)"

lemma wp_Reconcile_settling:
  assumes R: "reliable E w0" and A: "reliable_login E (Spec lb)" and C: "complete_spec (Spec lb)"
    and k: "\<not> strings_HasPrefix (nnName k) serviceHandlerPrefix" and s: "settling E w k lb (cluster_after h w0) n"
  shows "wp (Reconcile E k) (pass_settles E w0 w k lb n) h"
proof -
  from s obtain cur where cur: "lb_in (cluster_after h w0) k (Spec lb) cur" by (auto simp: settling_def)
  let ?lb = "initConditions cur" and ?h = "h @ [EGetLB k (Inr cur)]"
  have lb: "same_lb cur ?lb" by (simp add: initConditions_def same_lb_def)
  then have sp: "Spec ?lb = Spec lb" using cur by (simp add: same_lb_def lb_in_def)
  have fin: "ContainsFinalizer (lib E) (lbFinalizers ?lb) OpenstackLBFinalizer" and live: "IsZero (DeletionTimestamp (lbMeta ?lb))"
    using cur lb reliableD(4) [OF R] by (simp_all add: lb_in_def same_lb_def finalizer_spec_def)
  have "wp (reconcileLB E ?lb) (pass_result w0 ?h k ?lb) ?h"
    using s cur lb by (intro wp_reconcileLB [OF R, where cur = cur])
      (auto simp: sp A C settling_def keyed_def clients_same_lb [OF sp])
  moreover have "pass_settles E w0 w k lb n r h'" if "pass_result w0 ?h k ?lb r h'" for r h'
  proof -
    let ?w = "cluster_after h w0"
    have q: "(\<forall>s \<in> clients ?w lb. served ?w (Spec lb) s) \<longrightarrow> fst r = noRequeue"
      using that by (simp add: pass_result_def sp clients_same_lb [OF sp])
    from that obtain w2 lbs lb' where w2: "advanced ?w (Spec lb) (clients ?w lb) w2" "cluster_after h' w0 = w2\<lparr>c_lbs := lbs\<rparr>"
      "lb_in (w2\<lparr>c_lbs := lbs\<rparr>) k (Spec lb) lb'" "snd r = None"
      by (simp add: pass_result_def sp clients_same_lb [OF sp]) metis
    from advanced_settling [OF s w2(1,3)] w2 q s show ?thesis by (auto simp: pass_settles_def settling_def rank_0)
  qed
  ultimately have "wp (reconcileLB E ?lb) (pass_settles E w0 w k lb n) ?h" by (rule wp_mono)
  with k fin live reliable_GetLB [OF R, of h k cur] cur show ?thesis
    by (simp add: Reconcile_def GetLB_def lb_in_def Let_def)
qed

text \<open>What is assumed of the state the passes start in.\<close>

definition startable :: "env \<Rightarrow> cluster \<Rightarrow> NamespacedName \<Rightarrow> OpenStackLoadBalancer \<Rightarrow> bool" where
  "startable E w k lb \<longleftrightarrow> c_lbs w k = Some lb \<and> lbKey lb = k \<and> IsZero (DeletionTimestamp (lbMeta lb))
     \<and> \<not> strings_HasPrefix (nnName k) serviceHandlerPrefix \<and> complete_spec (Spec lb) \<and> reliable_login E (Spec lb)
     \<and> keyed w \<and> (\<forall>s \<in> clients w lb. detectable E (hd (Ingress s)))"

lemma wp_Reconcile_first:
  assumes R: "reliable E w0" and S: "startable E (cluster_after h w0) k lb"
  shows "wp (Reconcile E k) (\<lambda>r h'. snd r = None \<and> settling E (cluster_after h w0) k lb (cluster_after h' w0) 4) h"
proof -
  let ?w = "cluster_after h w0"
  have k: "\<not> strings_HasPrefix (nnName k) serviceHandlerPrefix" and C: "complete_spec (Spec lb)" and A: "reliable_login E (Spec lb)"
    and lb: "c_lbs ?w k = Some lb" "lbKey lb = k" "IsZero (DeletionTimestamp (lbMeta lb))"
    using S by (simp_all add: startable_def)
  have rest: "settling E ?w k lb w' 4" if "lb_in w' k (Spec lb) lb'" "w' = ?w\<lparr>c_lbs := lbs\<rparr>" for w' lb' lbs
    using S that rank_le by (auto simp: settling_def startable_def clients_def keyed_def)
  show ?thesis
  proof (cases "OpenstackLBFinalizer \<in> set (lbFinalizers lb)")
    case True
    then have "settling E ?w k lb ?w 4" using rest [of ?w lb "c_lbs ?w"] lb by (simp add: lb_in_def)
    from wp_Reconcile_settling [OF R A C k this] show ?thesis
      by (rule wp_mono) (auto simp: pass_settles_def intro: settling_mono)
  next
    case False
    let ?lb = "addLBFinalizer E (initConditions lb)" and ?h = "h @ [EGetLB k (Inr lb)]"
    have L: "finalizer_spec (lib E)" by (rule reliableD [OF R])
    have f: "lbKey ?lb = k" "OpenstackLBFinalizer \<in> set (lbFinalizers ?lb)" "Spec ?lb = Spec lb"
      "DeletionTimestamp (lbMeta ?lb) = DeletionTimestamp (lbMeta lb)"
      using L lb(2) by (simp_all add: addLBFinalizer_def lbSetFinalizers_def initConditions_def lbKey_def finalizer_spec_def)
    have u: "wp (updateResourceWithRetry E (LBObj ?lb)) (\<lambda>err h'. err = None \<and> (\<exists>v. cluster_after h' w0 = ?w\<lparr>c_lbs :=
        (c_lbs ?w)(k \<mapsto> bump_lb v (?lb\<lparr>Status := Status lb\<rparr>))\<rparr>)) ?h"
      using wp_updateResource_lb [OF R, of ?h ?lb lb] lb f(1) by simp
    have "lb_in (?w\<lparr>c_lbs := (c_lbs ?w)(k \<mapsto> bump_lb v (?lb\<lparr>Status := Status lb\<rparr>))\<rparr>) k (Spec lb) (bump_lb v (?lb\<lparr>Status := Status lb\<rparr>))" for v
      using f lb(3) by (simp add: lb_in_def bump_lb_def lbKey_def)
    note st = rest [OF this refl]
    have "\<not> ContainsFinalizer (lib E) (lbFinalizers (initConditions lb)) OpenstackLBFinalizer"
      "IsZero (DeletionTimestamp (lbMeta (initConditions lb)))"
      using L False lb(3) by (simp_all add: finalizer_spec_def initConditions_def)
    with k reliable_GetLB [OF R lb(1)] show ?thesis
      by (simp add: Reconcile_def GetLB_def Let_def) (rule wp_mono [OF u], use st in auto)
  qed
qed

fun passes :: "nat \<Rightarrow> env \<Rightarrow> Request \<Rightarrow> (Result \<times> error option) list io" where
  "passes 0 E req = ret []"
| "passes (Suc n) E req = do { r \<leftarrow> Reconcile E req; rs \<leftarrow> passes n E req; ret (r # rs) }"

lemma wp_passes_settling:
  assumes R: "reliable E w0" and A: "reliable_login E (Spec lb)" and C: "complete_spec (Spec lb)"
    and k: "\<not> strings_HasPrefix (nnName k) serviceHandlerPrefix"
  shows "settling E w k lb (cluster_after h w0) n \<Longrightarrow> wp (passes m E k) (\<lambda>rs h'. length rs = m
     \<and> settling E w k lb (cluster_after h' w0) (n - m) \<and> list_all (\<lambda>r. snd r = None) rs
     \<and> (n < m \<longrightarrow> fst (last rs) = noRequeue)) h"
proof (induction m arbitrary: n h)
  case (Suc m)
  show ?case
    unfolding passes.simps
  proof (rule wp_seq [OF wp_Reconcile_settling [OF R A C k Suc.prems]], goal_cases)
    case (1 r h1)
    then have s: "settling E w k lb (cluster_after h1 w0) (n - 1)" and r: "snd r = None" "n = 0 \<longrightarrow> fst r = noRequeue"
      by (simp_all add: pass_settles_def)
    from Suc.IH [OF s] show ?case
      by simp (erule wp_mono, use r in \<open>cases m; auto\<close>)
  qed
qed simp

text \<open>
  C5: if the servers answer from their state, accept valid requests and nobody else interferes, then
  after six passes over a load balancer, and after any larger number, the last pass asked for no
  further one, none failed, and every service that was eligible at the beginning is served: it has
  the finalizer and the credentials, an existing port and, if the load balancer asks for it, an
  existing floating IP whose address is published. The starting state may be any, with missing
  finalizers and with annotations that name resources that do not exist.
\<close>

theorem passes_converge:
  assumes "reliable E w0" and "startable E (cluster_after h w0) k lb" and "6 \<le> n"
    and "run_state (passes n E k) h = (rs, h')"
  shows "last rs = (noRequeue, None) \<and> list_all (\<lambda>r. snd r = None) rs
    \<and> (\<forall>key s. c_svcs (cluster_after h w0) key = Some s \<and> eligibleService lb s \<longrightarrow>
        (\<exists>s'. c_svcs (cluster_after h' w0) key = Some s' \<and> same_service s s'
           \<and> served (cluster_after h' w0) (Spec lb) s'))"
proof -
  let ?w = "cluster_after h w0"
  obtain m where n: "n = Suc m" and m: "4 < m" using assms(3) by (cases n) auto
  have p: "complete_spec (Spec lb)" "reliable_login E (Spec lb)" "\<not> strings_HasPrefix (nnName k) serviceHandlerPrefix"
    using assms(2) by (simp_all add: startable_def)
  have "wp (passes n E k) (\<lambda>rs h'. length rs = n \<and> settling E ?w k lb (cluster_after h' w0) 0
      \<and> list_all (\<lambda>r. snd r = None) rs \<and> fst (last rs) = noRequeue) h"
    unfolding n passes.simps
  proof (rule wp_seq [OF wp_Reconcile_first [OF assms(1,2)]], goal_cases)
    case (1 r h1)
    then have "settling E ?w k lb (cluster_after h1 w0) 4" by simp
    from wp_passes_settling [OF assms(1) p(2,1,3) this, of m] show ?case
      by simp (erule wp_mono, use m 1 in \<open>auto simp: last_conv_nth\<close>)
  qed
  from wp_run [OF this assms(4)] have s: "settling E ?w k lb (cluster_after h' w0) 0" and rs: "length rs = n"
    "list_all (\<lambda>r. snd r = None) rs" "fst (last rs) = noRequeue" by simp_all
  have "rs \<noteq> []" using rs(1) n by auto
  then have "snd (last rs) = None" using rs(2) last_in_set [of rs] by (simp add: list_all_iff)
  with rs have "last rs = (noRequeue, None)" by (simp add: prod_eq_iff)
  moreover have "served (cluster_after h' w0) (Spec lb) s'"
    if "c_svcs (cluster_after h' w0) key = Some s'" "same_service s s'" "eligibleService lb s" for key s s'
  proof -
    have "s' \<in> clients (cluster_after h' w0) lb" using that same_service_eligible [OF that(2) refl] by (auto simp: clients_def ran_def)
    with s show ?thesis by (auto simp: settling_def rank_0)
  qed
  moreover have "\<exists>s'. c_svcs (cluster_after h' w0) key = Some s' \<and> same_service s s'"
    if "c_svcs ?w key = Some s \<and> eligibleService lb s" for key s
    using s that by (simp add: settling_def)
  ultimately show ?thesis using rs(2) by blast
qed

section \<open>A reliable world\<close>

text \<open>
  Servers that answer from the replayed history: the assumptions can hold together. The cluster starts
  with the load balancer and the service of the sample world and without any OpenStack resource. New
  floating IPs get an ID longer than all before.
\<close>

definition sample_cluster :: cluster where
  "sample_cluster = \<lparr>c_lbs = [lbKey sample_lb \<mapsto> sample_lb], c_svcs = [svcKey sample_svc \<mapsto> sample_svc],
     c_ports = {}, c_fips = Map.empty\<rparr>"

abbreviation sample_at :: "history \<Rightarrow> cluster" where
  "sample_at h \<equiv> cluster_after h sample_cluster"

fun fip_id_length :: "event \<Rightarrow> nat" where
  "fip_id_length (EFipCreate c opts (Inr f)) = length (FIP_ID f)"
| "fip_id_length e = 0"

definition fresh_fip_id :: "history \<Rightarrow> string" where
  "fresh_fip_id h = replicate (Suc (sum_list (map fip_id_length h))) (CHR ''f'')"

definition conflict :: error where "conflict = StatusError ''Conflict'' ''object has been modified''"
definition not_found :: error where "not_found = StatusError ''NotFound'' ''not found''"

definition replay_k8s :: k8s_api where
  "replay_k8s = sample_k8s\<lparr>
     k8s_GetLB := \<lambda>h k. (case c_lbs (sample_at h) k of None \<Rightarrow> Inl not_found | Some l \<Rightarrow> Inr l),
     k8s_GetSvc := \<lambda>h k. (case c_svcs (sample_at h) k of None \<Rightarrow> Inl not_found | Some s \<Rightarrow> Inr s),
     k8s_ListSvcs := \<lambda>h. Inr (case c_svcs (sample_at h) (svcKey sample_svc) of None \<Rightarrow> [] | Some s \<Rightarrow> [s]),
     k8s_Update := \<lambda>h obj. (case obj of
         SvcObj s \<Rightarrow> (case c_svcs (sample_at h) (svcKey s) of
             None \<Rightarrow> Inl not_found
           | Some cur \<Rightarrow> if ResourceVersion (svcMeta s) = ResourceVersion (svcMeta cur)
               then Inr (SvcObj (bump_svc (CHR ''+'' # ResourceVersion (svcMeta cur)) (s\<lparr>Ingress := Ingress cur\<rparr>)))
               else Inl conflict)
       | LBObj l \<Rightarrow> (case c_lbs (sample_at h) (lbKey l) of
             None \<Rightarrow> Inl not_found
           | Some cur \<Rightarrow> if ResourceVersion (lbMeta l) = ResourceVersion (lbMeta cur)
               then Inr (LBObj (bump_lb (CHR ''+'' # ResourceVersion (lbMeta cur)) (l\<lparr>Status := Status cur\<rparr>)))
               else Inl conflict)),
     k8s_StatusUpdate := \<lambda>h l. (case c_lbs (sample_at h) (lbKey l) of
             None \<Rightarrow> Inl not_found
           | Some cur \<Rightarrow> if ResourceVersion (lbMeta l) = ResourceVersion (lbMeta cur)
               then Inr (bump_lb (CHR ''+'' # ResourceVersion (lbMeta cur)) (cur\<lparr>Status := Status l\<rparr>))
               else Inl conflict)\<rparr>"

definition replay_gopher :: gophercloud where
  "replay_gopher = sample_gopher\<lparr>
     fip_Create := \<lambda>h c opts. Inr \<lparr>FIP_ID = fresh_fip_id h, FIP_FloatingIP = ''203.0.113.7'',
       FIP_PortID = fco_PortID opts, FIP_Description = fco_Description opts\<rparr>,
     fip_Get := \<lambda>h c i. (case c_fips (sample_at h) i of None \<Rightarrow> Inl (ErrDefault404 ''no floating IP'') | Some f \<Rightarrow> Inr f),
     fip_Extract := \<lambda>p. Inr [],
     port_Get := \<lambda>h c i. (if i \<in> c_ports (sample_at h) then Inr (sample_port\<lparr>Port_ID := i\<rparr>) else Inl (ErrDefault404 ''no port''))\<rparr>"

definition replay_env :: env where
  "replay_env = sample_env\<lparr>k8s := replay_k8s, gopher := replay_gopher\<rparr>"

lemma cluster_step_dom: "dom (c_svcs (cluster_step e w)) = dom (c_svcs w)"
  by (cases "(e, w)" rule: cluster_step.cases) (auto simp: put_svc_def put_lb_def)

lemma sample_at_dom: "dom (c_svcs (sample_at h)) = {svcKey sample_svc}"
  by (induction h rule: rev_induct) (auto simp: cluster_step_dom sample_cluster_def split: if_splits)

lemma cluster_step_fips:
  "c_fips (cluster_step e w) i = Some f \<Longrightarrow> c_fips w i = Some f \<or> length i = fip_id_length e"
  by (cases "(e, w)" rule: cluster_step.cases) (auto simp: put_svc_def put_lb_def split: if_splits)

lemma sample_at_fips: "c_fips (sample_at h) i = Some f \<Longrightarrow> length i \<le> sum_list (map fip_id_length h)"
proof (induction h rule: rev_induct)
  case Nil
  then show ?case by (simp add: sample_cluster_def)
next
  case (snoc e h)
  then show ?case using cluster_step_fips [of e "sample_at h" i f] by (auto intro: trans_le_add1)
qed

lemma fresh_fip_id: "c_fips (sample_at h) (fresh_fip_id h) = None" "fresh_fip_id h \<noteq> []"
  using sample_at_fips [of h "fresh_fip_id h"] by (cases "c_fips (sample_at h) (fresh_fip_id h)") (auto simp: fresh_fip_id_def)

lemma replay_k8s_reliable: "reliable_k8s replay_env sample_cluster"
proof -
  have "ran (c_svcs (sample_at h)) = {the (c_svcs (sample_at h) (svcKey sample_svc))}"
    "c_svcs (sample_at h) (svcKey sample_svc) \<noteq> None" for h
  proof -
    from sample_at_dom [of h] obtain s where s: "c_svcs (sample_at h) = [svcKey sample_svc \<mapsto> s]" by (auto simp: dom_eq_singleton_conv)
    show "ran (c_svcs (sample_at h)) = {the (c_svcs (sample_at h) (svcKey sample_svc))}"
      "c_svcs (sample_at h) (svcKey sample_svc) \<noteq> None" by (simp_all add: s)
  qed
  then show ?thesis
    unfolding reliable_k8s_def by (auto simp: replay_env_def replay_k8s_def split: option.split)
qed

lemma replay_reliable: "reliable replay_env sample_cluster"
proof -
  have "reliable_openstack replay_env sample_cluster"
    unfolding reliable_openstack_def
    by (auto simp: replay_env_def replay_gopher_def sample_gopher_def sample_port_def fresh_fip_id split: option.split)
  with replay_k8s_reliable show ?thesis by (simp add: reliable_def replay_env_def)
qed

lemma replay_startable: "startable replay_env (sample_at []) (lbKey sample_lb) sample_lb"
proof -
  have "detectable replay_env ''10.0.0.5''"
    by (simp add: detectable_def sample_ParseIP replay_env_def replay_gopher_def sample_gopher_def sample_subnet_covers)
  moreover have "hd (Ingress sample_svc) = ''10.0.0.5''" by (simp add: sample_svc_def)
  moreover have "reliable_login replay_env (Spec sample_lb)"
    by (simp add: reliable_login_def replay_env_def replay_k8s_def replay_gopher_def sample_defs credentials_complete_def gmap_index_def gmap_lookup_def)
  moreover have "\<not> strings_HasPrefix (nnName (lbKey sample_lb)) serviceHandlerPrefix" "complete_spec (Spec sample_lb)"
    "IsZero (DeletionTimestamp (lbMeta sample_lb))"
    by (simp_all add: strings_HasPrefix_def lbKey_def sample_lb_def sample_meta_def serviceHandlerPrefix_def complete_spec_def IsZero_def)
  ultimately show ?thesis by (simp add: startable_def sample_cluster_def keyed_def clients_def)
qed

theorem passes_converge_witness:
  "\<exists>rs h' s'. run_state (passes 6 replay_env (lbKey sample_lb)) [] = (rs, h') \<and> last rs = (noRequeue, None)
     \<and> c_svcs (sample_at h') (svcKey sample_svc) = Some s' \<and> served (sample_at h') (Spec sample_lb) s'"
proof -
  obtain rs h' where r: "run_state (passes 6 replay_env (lbKey sample_lb)) [] = (rs, h')" by (metis prod.collapse)
  have "eligibleService sample_lb sample_svc"
    by (simp add: eligibleService_def isServiceMatchingLBClass_def sample_svc_def sample_lb_def sample_meta_def IsZero_def)
  moreover have "c_svcs (sample_at []) (svcKey sample_svc) = Some sample_svc" by (simp add: sample_cluster_def)
  ultimately show ?thesis using passes_converge [OF replay_reliable replay_startable _ r] r by auto
qed

end
