(* ===== verification/Go_Memory.thy ===== *)
theory Go_Memory
  imports Prelude
begin

text \<open>
  Memory where aliasing matters: a heap of cells behind an allocation limit, slices as views of backing
  arrays, and Go's \<open>append\<close>. It is used by the models of the deep copy functions and of the manager's
  start, whose correctness is about which slices share an array.
\<close>

section \<open>Heaps\<close>

record 'c heap =
  cells :: "nat \<Rightarrow> 'c option"
  lim :: nat

definition empty_heap :: "'c heap" where
  "empty_heap = \<lparr>cells = (\<lambda>_. None), lim = 0\<rparr>"

definition alloc :: "'c \<Rightarrow> 'c heap \<Rightarrow> nat \<times> 'c heap" where
  "alloc c h = (lim h, h\<lparr>cells := (cells h)(lim h \<mapsto> c), lim := Suc (lim h)\<rparr>)"

definition heap_write :: "nat \<Rightarrow> 'c \<Rightarrow> 'c heap \<Rightarrow> 'c heap" where
  "heap_write a c h = h\<lparr>cells := (cells h)(a \<mapsto> c)\<rparr>"

text \<open>\<open>extends h h'\<close>: what was allocated in \<open>h\<close> is unchanged in \<open>h'\<close>.\<close>

definition extends :: "'c heap \<Rightarrow> 'c heap \<Rightarrow> bool" where
  "extends h h' \<longleftrightarrow> lim h \<le> lim h' \<and> (\<forall>a < lim h. cells h' a = cells h a)"

lemma extends_refl [simp]: "extends h h"
  by (simp add: extends_def)

lemma extends_trans: "extends h h1 \<Longrightarrow> extends h1 h2 \<Longrightarrow> extends h h2"
  by (auto simp: extends_def)

lemma extends_alloc: "alloc c h = (a, h') \<Longrightarrow> extends h h'"
  by (auto simp: alloc_def extends_def)

lemma extends_write: "extends h h' \<Longrightarrow> lim h \<le> a \<Longrightarrow> extends h (heap_write a c h')"
  by (simp add: extends_def heap_write_def)

lemma extends_cells: "extends h h' \<Longrightarrow> a < lim h \<Longrightarrow> cells h' a = cells h a"
  by (simp add: extends_def)

lemma alloc_simps [simp]:
  "fst (alloc c h) = lim h" "lim (snd (alloc c h)) = Suc (lim h)"
  "cells (snd (alloc c h)) = (cells h)(lim h \<mapsto> c)"
  by (simp_all add: alloc_def)

lemma heap_write_simps [simp]: "lim (heap_write a c h) = lim h" "cells (heap_write a c h) = (cells h)(a \<mapsto> c)"
  by (simp_all add: heap_write_def)

section \<open>Slices\<close>

text \<open>
  A slice is the prefix of length \<open>s_len\<close> of a backing array of \<open>s_cap\<close> elements; \<^term>\<open>None\<close> is the nil
  slice. (No code modelled here takes a slice that starts inside its array.)
\<close>

record slice =
  s_arr :: nat
  s_len :: nat
  s_cap :: nat

text \<open>The elements of a slice over arrays of function values, nil functions as \<^term>\<open>None\<close>.\<close>

definition elements :: "'f option list heap \<Rightarrow> slice option \<Rightarrow> 'f option list" where
  "elements h s = (case s of None \<Rightarrow> []
     | Some v \<Rightarrow> (case cells h (s_arr v) of None \<Rightarrow> [] | Some arr \<Rightarrow> take (s_len v) arr))"

text \<open>
  \<open>append(s, x)\<close>: if the array has room the element is written there, visible to every other slice of
  the array; otherwise a larger array is allocated. How much larger is up to the runtime: \<open>grow c n\<close>
  is the capacity chosen when \<open>n\<close> elements are needed and the capacity was \<open>c\<close>.
\<close>

definition append_slice ::
  "(nat \<Rightarrow> nat \<Rightarrow> nat) \<Rightarrow> 'f option list heap \<Rightarrow> slice option \<Rightarrow> 'f \<Rightarrow> 'f option list heap \<times> slice" where
  "append_slice grow h s x =
     (let n = (case s of None \<Rightarrow> 0 | Some v \<Rightarrow> s_len v);
          c = (case s of None \<Rightarrow> 0 | Some v \<Rightarrow> s_cap v)
      in
      case s of
        Some v \<Rightarrow>
          if n < c then
            (heap_write (s_arr v) ((the (cells h (s_arr v)))[n := Some x]) h, v\<lparr>s_len := Suc n\<rparr>)
          else
            let cap = grow c (Suc n);
                (a, h') = alloc (elements h s @ Some x # replicate (cap - Suc n) None) h
            in (h', \<lparr>s_arr = a, s_len = Suc n, s_cap = cap\<rparr>)
      | None \<Rightarrow>
          let cap = grow 0 1; (a, h') = alloc (Some x # replicate (cap - 1) None) h
          in (h', \<lparr>s_arr = a, s_len = 1, s_cap = cap\<rparr>))"

text \<open>What the language promises of the capacity.\<close>

definition grow_spec :: "(nat \<Rightarrow> nat \<Rightarrow> nat) \<Rightarrow> bool" where
  "grow_spec grow \<longleftrightarrow> (\<forall>c n. n \<le> grow c n)"

text \<open>A slice whose array exists and is as long as its capacity.\<close>

definition slice_ok :: "'f option list heap \<Rightarrow> slice option \<Rightarrow> bool" where
  "slice_ok h s = (case s of None \<Rightarrow> True
     | Some v \<Rightarrow> s_len v \<le> s_cap v \<and> s_arr v < lim h \<and> (\<exists>arr. cells h (s_arr v) = Some arr \<and> length arr = s_cap v))"

lemma append_slice_elements:
  assumes "grow_spec grow" and "slice_ok h s" and "append_slice grow h s x = (h', s')"
  shows "elements h' (Some s') = elements h s @ [Some x] \<and> slice_ok h' (Some s')"
proof (cases s)
  case None
  have "1 \<le> grow 0 1" using assms(1) by (simp add: grow_spec_def)
  with assms(3) None show ?thesis
    by (auto simp: append_slice_def elements_def slice_ok_def alloc_def Let_def)
next
  case (Some v)
  then obtain arr where arr: "cells h (s_arr v) = Some arr" "length arr = s_cap v" "s_len v \<le> s_cap v" "s_arr v < lim h"
    using assms(2) by (auto simp: slice_ok_def)
  show ?thesis
  proof (cases "s_len v < s_cap v")
    case True
    with assms(3) Some arr show ?thesis
      by (auto simp: append_slice_def elements_def slice_ok_def take_Suc_conv_app_nth Let_def)
  next
    case False
    have "Suc (s_len v) \<le> grow (s_cap v) (Suc (s_len v))" using assms(1) by (simp add: grow_spec_def)
    with assms(3) Some arr False show ?thesis
      by (auto simp: append_slice_def elements_def slice_ok_def alloc_def Let_def)
  qed
qed

text \<open>An append to a full slice leaves every existing array alone.\<close>

lemma append_slice_full:
  assumes "append_slice grow h s x = (h', s')" and "\<And>v. s = Some v \<Longrightarrow> s_cap v \<le> s_len v"
  shows "extends h h' \<and> s_arr s' = lim h"
  using assms by (auto simp: append_slice_def extends_def alloc_def Let_def split: option.splits if_splits)

lemma elements_extends:
  "extends h h' \<Longrightarrow> slice_ok h s \<Longrightarrow> elements h' s = elements h s"
  by (auto simp: elements_def slice_ok_def extends_def split: option.splits)

end
