(* ===== verification/Deep_Copy.thy ===== *)
theory Deep_Copy
  imports Api_Types Go_Memory
begin

text \<open>
  \<open>src/api/v1alpha1/zz_generated.deepcopy.go\<close>: the copy functions of the custom resource. The other
  theories treat Kubernetes objects as immutable values and \<open>DeepCopy\<close> as the identity; this one is
  what justifies that. Objects live in memory, their maps, slices and pointers are addresses, and a
  copy has to have the same value while it shares no address with the original.

  Copying into \<open>*out\<close> is modelled as returning the new contents of \<open>*out\<close>; no caller can look at \<open>out\<close>
  in between. The copy functions of apimachinery's \<open>ObjectMeta\<close>, \<open>ListMeta\<close> and \<open>Condition\<close> are
  parameters.
\<close>

section \<open>Objects in memory\<close>

record mem_meta =
  mm_Name :: string
  mm_Namespace :: string
  mm_ResourceVersion :: string
  mm_Annotations :: "nat option"
  mm_Finalizers :: "slice option"
  mm_DeletionTimestamp :: "nat option"

record mem_status =
  ms_Conditions :: "slice option"
  ms_LBNetworkID :: string
  ms_LBSubnetID :: string
  ms_Ready :: bool

text \<open>\<open>TypeMeta\<close> is the pair of kind and API version.\<close>

record mem_lb =
  m_TypeMeta :: "string \<times> string"
  m_Meta :: mem_meta
  m_Spec :: OpenStackLoadBalancerSpec
  m_Status :: mem_status

record mem_list_meta =
  lm_ResourceVersion :: string
  lm_Continue :: string
  lm_RemainingItemCount :: "nat option"

record mem_list =
  l_TypeMeta :: "string \<times> string"
  l_Meta :: mem_list_meta
  l_Items :: "slice option"

text \<open>A cell is an object behind a pointer, a map, or the backing array of a slice.\<close>

datatype cell =
    CMap "string \<rightharpoonup> string"
  | CTime time
  | CInt int
  | CStrings "string list"
  | CConditions "Condition list"
  | CLB mem_lb
  | CLBs "mem_lb list"
  | CList mem_list
  | CStatus mem_status
  | CSpec OpenStackLoadBalancerSpec
  | CSecretRef SecretReference

type_synonym memory = "cell heap"

section \<open>The copy functions\<close>

record copy_lib =
  ObjectMeta_DeepCopyInto :: "memory \<Rightarrow> mem_meta \<Rightarrow> mem_meta \<times> memory"
  ListMeta_DeepCopyInto :: "memory \<Rightarrow> mem_list_meta \<Rightarrow> mem_list_meta \<times> memory"
  Condition_DeepCopyInto :: "Condition \<Rightarrow> Condition"

text \<open>Zero values; they are overwritten before anyone reads them.\<close>

definition zero_condition :: Condition where
  "zero_condition = \<lparr>CondType = [], CondStatus = ConditionUnknown, ObservedGeneration = 0,
     LastTransitionTime = 0, Reason = [], Message = []\<rparr>"

definition zero_status :: mem_status where
  "zero_status = \<lparr>ms_Conditions = None, ms_LBNetworkID = [], ms_LBSubnetID = [], ms_Ready = False\<rparr>"

definition zero_ref :: SecretReference where
  "zero_ref = \<lparr>refName = [], refNamespace = []\<rparr>"

definition zero_spec :: OpenStackLoadBalancerSpec where
  "zero_spec = \<lparr>ClassName = [], ApplicationCredentialSecretRef = zero_ref, CreateFloatingIP = False, FloatingIPNetworkID = []\<rparr>"

definition zero_lb :: mem_lb where
  "zero_lb = \<lparr>m_TypeMeta = ([], []),
     m_Meta = \<lparr>mm_Name = [], mm_Namespace = [], mm_ResourceVersion = [], mm_Annotations = None, mm_Finalizers = None, mm_DeletionTimestamp = None\<rparr>,
     m_Spec = zero_spec, m_Status = zero_status\<rparr>"

definition zero_list :: mem_list where
  "zero_list = \<lparr>l_TypeMeta = ([], []), l_Meta = \<lparr>lm_ResourceVersion = [], lm_Continue = [], lm_RemainingItemCount = None\<rparr>, l_Items = None\<rparr>"

text \<open>One round of the loop over the conditions of the slice \<open>s\<close>, into the array \<open>a\<close>.\<close>

definition copy_condition :: "copy_lib \<Rightarrow> slice \<Rightarrow> nat \<Rightarrow> nat \<Rightarrow> memory \<Rightarrow> memory" where
  "copy_condition D s a i h =
     (case (cells h (s_arr s), cells h a) of
        (Some (CConditions cs), Some (CConditions ds)) \<Rightarrow>
          heap_write a (CConditions (ds[i := Condition_DeepCopyInto D (cs ! i)])) h
      | _ \<Rightarrow> h)"

definition Status_DeepCopyInto :: "copy_lib \<Rightarrow> memory \<Rightarrow> mem_status \<Rightarrow> mem_status \<times> memory" where
  "Status_DeepCopyInto D h src =
     (let out = src in
      case ms_Conditions src of
        None \<Rightarrow> (out, h)
      | Some s \<Rightarrow>
          let (a, h1) = alloc (CConditions (replicate (s_len s) zero_condition)) h;
              out' = out\<lparr>ms_Conditions := Some \<lparr>s_arr = a, s_len = s_len s, s_cap = s_len s\<rparr>\<rparr>
          in (out', fold (copy_condition D s a) [0..<s_len s] h1))"

definition SecretReference_DeepCopyInto :: "SecretReference \<Rightarrow> SecretReference" where
  "SecretReference_DeepCopyInto src = src"

definition Spec_DeepCopyInto :: "OpenStackLoadBalancerSpec \<Rightarrow> OpenStackLoadBalancerSpec" where
  "Spec_DeepCopyInto src =
     (let out = src in out\<lparr>ApplicationCredentialSecretRef := ApplicationCredentialSecretRef src\<rparr>)"

definition LB_DeepCopyInto :: "copy_lib \<Rightarrow> memory \<Rightarrow> mem_lb \<Rightarrow> mem_lb \<times> memory" where
  "LB_DeepCopyInto D h src =
     (let out = src;
          out1 = out\<lparr>m_TypeMeta := m_TypeMeta src\<rparr>;
          (meta, h1) = ObjectMeta_DeepCopyInto D h (m_Meta src);
          out2 = out1\<lparr>m_Meta := meta\<rparr>;
          out3 = out2\<lparr>m_Spec := m_Spec src\<rparr>;
          (st, h2) = Status_DeepCopyInto D h1 (m_Status src)
      in (out3\<lparr>m_Status := st\<rparr>, h2))"

definition copy_item :: "copy_lib \<Rightarrow> slice \<Rightarrow> nat \<Rightarrow> nat \<Rightarrow> memory \<Rightarrow> memory" where
  "copy_item D s a i h =
     (case cells h (s_arr s) of
        Some (CLBs items) \<Rightarrow>
          let (item, h') = LB_DeepCopyInto D h (items ! i) in
          (case cells h' a of Some (CLBs outs) \<Rightarrow> heap_write a (CLBs (outs[i := item])) h' | _ \<Rightarrow> h')
      | _ \<Rightarrow> h)"

definition List_DeepCopyInto :: "copy_lib \<Rightarrow> memory \<Rightarrow> mem_list \<Rightarrow> mem_list \<times> memory" where
  "List_DeepCopyInto D h src =
     (let out = src;
          out1 = out\<lparr>l_TypeMeta := l_TypeMeta src\<rparr>;
          (meta, h1) = ListMeta_DeepCopyInto D h (l_Meta src);
          out2 = out1\<lparr>l_Meta := meta\<rparr>
      in
      case l_Items src of
        None \<Rightarrow> (out2, h1)
      | Some s \<Rightarrow>
          let (a, h2) = alloc (CLBs (replicate (s_len s) zero_lb)) h1;
              out3 = out2\<lparr>l_Items := Some \<lparr>s_arr = a, s_len = s_len s, s_cap = s_len s\<rparr>\<rparr>
          in (out3, fold (copy_item D s a) [0..<s_len s] h2))"

text \<open>
  \<open>DeepCopy\<close>: nil for nil, otherwise a new object that is copied into. (A pointer always points to an
  object of its type; the remaining case cannot occur.)
\<close>

definition LB_DeepCopy :: "copy_lib \<Rightarrow> memory \<Rightarrow> nat option \<Rightarrow> nat option \<times> memory" where
  "LB_DeepCopy D h src =
     (case src of
        None \<Rightarrow> (None, h)
      | Some p \<Rightarrow>
          (case cells h p of
             Some (CLB m) \<Rightarrow>
               let (out, h1) = alloc (CLB zero_lb) h; (m', h2) = LB_DeepCopyInto D h1 m
               in (Some out, heap_write out (CLB m') h2)
           | _ \<Rightarrow> (None, h)))"

definition LB_DeepCopyObject :: "copy_lib \<Rightarrow> memory \<Rightarrow> nat option \<Rightarrow> nat option \<times> memory" where
  "LB_DeepCopyObject D h src =
     (let (c, h') = LB_DeepCopy D h src in case c of Some q \<Rightarrow> (Some q, h') | None \<Rightarrow> (None, h'))"

definition List_DeepCopy :: "copy_lib \<Rightarrow> memory \<Rightarrow> nat option \<Rightarrow> nat option \<times> memory" where
  "List_DeepCopy D h src =
     (case src of
        None \<Rightarrow> (None, h)
      | Some p \<Rightarrow>
          (case cells h p of
             Some (CList l) \<Rightarrow>
               let (out, h1) = alloc (CList zero_list) h; (l', h2) = List_DeepCopyInto D h1 l
               in (Some out, heap_write out (CList l') h2)
           | _ \<Rightarrow> (None, h)))"

definition List_DeepCopyObject :: "copy_lib \<Rightarrow> memory \<Rightarrow> nat option \<Rightarrow> nat option \<times> memory" where
  "List_DeepCopyObject D h src =
     (let (c, h') = List_DeepCopy D h src in case c of Some q \<Rightarrow> (Some q, h') | None \<Rightarrow> (None, h'))"

definition Status_DeepCopy :: "copy_lib \<Rightarrow> memory \<Rightarrow> nat option \<Rightarrow> nat option \<times> memory" where
  "Status_DeepCopy D h src =
     (case src of
        None \<Rightarrow> (None, h)
      | Some p \<Rightarrow>
          (case cells h p of
             Some (CStatus s) \<Rightarrow>
               let (out, h1) = alloc (CStatus zero_status) h; (s', h2) = Status_DeepCopyInto D h1 s
               in (Some out, heap_write out (CStatus s') h2)
           | _ \<Rightarrow> (None, h)))"

definition Spec_DeepCopy :: "memory \<Rightarrow> nat option \<Rightarrow> nat option \<times> memory" where
  "Spec_DeepCopy h src =
     (case src of
        None \<Rightarrow> (None, h)
      | Some p \<Rightarrow>
          (case cells h p of
             Some (CSpec s) \<Rightarrow>
               let (out, h1) = alloc (CSpec zero_spec) h
               in (Some out, heap_write out (CSpec (Spec_DeepCopyInto s)) h1)
           | _ \<Rightarrow> (None, h)))"

definition SecretReference_DeepCopy :: "memory \<Rightarrow> nat option \<Rightarrow> nat option \<times> memory" where
  "SecretReference_DeepCopy h src =
     (case src of
        None \<Rightarrow> (None, h)
      | Some p \<Rightarrow>
          (case cells h p of
             Some (CSecretRef r) \<Rightarrow>
               let (out, h1) = alloc (CSecretRef zero_ref) h
               in (Some out, heap_write out (CSecretRef (SecretReference_DeepCopyInto r)) h1)
           | _ \<Rightarrow> (None, h)))"

section \<open>Values and reachable addresses\<close>

definition deref :: "memory \<Rightarrow> nat \<Rightarrow> cell option" where
  "deref h a = (if a < lim h then cells h a else None)"

text \<open>
  The value an object in memory stands for, \<^term>\<open>None\<close> if a reference dangles, and the addresses that
  can be reached from it.
\<close>

definition annotations_val :: "memory \<Rightarrow> nat option \<Rightarrow> gmap option" where
  "annotations_val h p = (case p of None \<Rightarrow> Some None
     | Some a \<Rightarrow> (case deref h a of Some (CMap m) \<Rightarrow> Some (Some m) | _ \<Rightarrow> None))"

definition strings_val :: "memory \<Rightarrow> slice option \<Rightarrow> string list option" where
  "strings_val h p = (case p of None \<Rightarrow> Some []
     | Some s \<Rightarrow> (case deref h (s_arr s) of
         Some (CStrings xs) \<Rightarrow> if s_len s \<le> length xs then Some (take (s_len s) xs) else None | _ \<Rightarrow> None))"

definition time_val :: "memory \<Rightarrow> nat option \<Rightarrow> time option option" where
  "time_val h p = (case p of None \<Rightarrow> Some None
     | Some a \<Rightarrow> (case deref h a of Some (CTime t) \<Rightarrow> Some (Some t) | _ \<Rightarrow> None))"

definition meta_val :: "memory \<Rightarrow> mem_meta \<Rightarrow> object_meta option" where
  "meta_val h m =
     (case (annotations_val h (mm_Annotations m), strings_val h (mm_Finalizers m), time_val h (mm_DeletionTimestamp m)) of
        (Some an, Some fs, Some t) \<Rightarrow> Some \<lparr>Name = mm_Name m, Namespace = mm_Namespace m,
          ResourceVersion = mm_ResourceVersion m, Annotations = an, Finalizers = fs, DeletionTimestamp = t\<rparr>
      | _ \<Rightarrow> None)"

definition slice_refs :: "slice option \<Rightarrow> nat set" where
  "slice_refs p = s_arr ` set_option p"

definition meta_refs :: "mem_meta \<Rightarrow> nat set" where
  "meta_refs m = set_option (mm_Annotations m) \<union> slice_refs (mm_Finalizers m) \<union> set_option (mm_DeletionTimestamp m)"

definition conditions_val :: "memory \<Rightarrow> slice option \<Rightarrow> Condition list option option" where
  "conditions_val h p = (case p of None \<Rightarrow> Some None
     | Some s \<Rightarrow> (case deref h (s_arr s) of
         Some (CConditions cs) \<Rightarrow> if s_len s \<le> length cs then Some (Some (take (s_len s) cs)) else None | _ \<Rightarrow> None))"

definition status_val :: "memory \<Rightarrow> mem_status \<Rightarrow> OpenStackLoadBalancerStatus option" where
  "status_val h s = map_option (\<lambda>cs. \<lparr>Conditions = cs, LBNetworkID = ms_LBNetworkID s,
     LBSubnetID = ms_LBSubnetID s, Ready = ms_Ready s\<rparr>) (conditions_val h (ms_Conditions s))"

definition lb_val :: "memory \<Rightarrow> mem_lb \<Rightarrow> ((string \<times> string) \<times> OpenStackLoadBalancer) option" where
  "lb_val h m = (case (meta_val h (m_Meta m), status_val h (m_Status m)) of
     (Some mt, Some st) \<Rightarrow> Some (m_TypeMeta m, \<lparr>lbMeta = mt, Spec = m_Spec m, Status = st\<rparr>)
   | _ \<Rightarrow> None)"

definition lb_refs :: "mem_lb \<Rightarrow> nat set" where
  "lb_refs m = meta_refs (m_Meta m) \<union> slice_refs (ms_Conditions (m_Status m))"

definition lb_at :: "memory \<Rightarrow> nat \<Rightarrow> ((string \<times> string) \<times> OpenStackLoadBalancer) option" where
  "lb_at h p = (case deref h p of Some (CLB m) \<Rightarrow> lb_val h m | _ \<Rightarrow> None)"

definition lb_reach :: "memory \<Rightarrow> nat \<Rightarrow> nat set" where
  "lb_reach h p = insert p (case deref h p of Some (CLB m) \<Rightarrow> lb_refs m | _ \<Rightarrow> {})"

definition count_val :: "memory \<Rightarrow> nat option \<Rightarrow> int option option" where
  "count_val h p = (case p of None \<Rightarrow> Some None
     | Some a \<Rightarrow> (case deref h a of Some (CInt n) \<Rightarrow> Some (Some n) | _ \<Rightarrow> None))"

definition list_meta_val :: "memory \<Rightarrow> mem_list_meta \<Rightarrow> (string \<times> string \<times> int option) option" where
  "list_meta_val h m = map_option (\<lambda>n. (lm_ResourceVersion m, lm_Continue m, n)) (count_val h (lm_RemainingItemCount m))"

definition items_val :: "memory \<Rightarrow> slice option \<Rightarrow> ((string \<times> string) \<times> OpenStackLoadBalancer) list option option" where
  "items_val h p = (case p of None \<Rightarrow> Some None
     | Some s \<Rightarrow> (case deref h (s_arr s) of
         Some (CLBs ms) \<Rightarrow> if s_len s \<le> length ms then map_option Some (those (map (lb_val h) (take (s_len s) ms))) else None
       | _ \<Rightarrow> None))"

definition items_refs :: "memory \<Rightarrow> slice option \<Rightarrow> nat set" where
  "items_refs h p = (case p of None \<Rightarrow> {}
     | Some s \<Rightarrow> insert (s_arr s) (case deref h (s_arr s) of
         Some (CLBs ms) \<Rightarrow> \<Union> (lb_refs ` set (take (s_len s) ms)) | _ \<Rightarrow> {}))"

text \<open>The value of a list: its type, its metadata and its items.\<close>

definition list_at :: "memory \<Rightarrow> nat \<Rightarrow> ((string \<times> string) \<times> (string \<times> string \<times> int option)
    \<times> ((string \<times> string) \<times> OpenStackLoadBalancer) list option) option" where
  "list_at h p = (case deref h p of
     Some (CList l) \<Rightarrow> (case (list_meta_val h (l_Meta l), items_val h (l_Items l)) of
         (Some m, Some xs) \<Rightarrow> Some (l_TypeMeta l, m, xs) | _ \<Rightarrow> None)
   | _ \<Rightarrow> None)"

definition list_reach :: "memory \<Rightarrow> nat \<Rightarrow> nat set" where
  "list_reach h p = insert p (case deref h p of
     Some (CList l) \<Rightarrow> set_option (lm_RemainingItemCount (l_Meta l)) \<union> items_refs h (l_Items l) | _ \<Rightarrow> {})"

section \<open>Agreement\<close>

text \<open>A value only depends on the cells that can be reached.\<close>

lemma meta_val_agree:
  "(\<And>a. a \<in> meta_refs m \<Longrightarrow> deref h' a = deref h a) \<Longrightarrow> meta_val h' m = meta_val h m"
  by (auto simp: meta_val_def annotations_val_def strings_val_def time_val_def meta_refs_def slice_refs_def
      split: option.split)

lemma status_val_agree:
  "(\<And>a. a \<in> slice_refs (ms_Conditions s) \<Longrightarrow> deref h' a = deref h a) \<Longrightarrow> status_val h' s = status_val h s"
  by (auto simp: status_val_def conditions_val_def slice_refs_def split: option.split)

lemma lb_val_agree:
  "(\<And>a. a \<in> lb_refs m \<Longrightarrow> deref h' a = deref h a) \<Longrightarrow> lb_val h' m = lb_val h m"
  unfolding lb_val_def lb_refs_def
  by (subst meta_val_agree [of "m_Meta m" h' h], simp, subst status_val_agree [of "m_Status m" h' h]) simp_all

text \<open>The references of an object that has a value are allocated.\<close>

lemma deref_bound: "deref h a = Some c \<Longrightarrow> a < lim h"
  by (simp add: deref_def split: if_splits)

lemma meta_val_bound: "meta_val h m = Some v \<Longrightarrow> meta_refs m \<subseteq> {..<lim h}"
  by (auto simp: meta_val_def annotations_val_def strings_val_def time_val_def meta_refs_def slice_refs_def
      split: option.splits cell.splits if_splits dest: deref_bound)

lemma status_val_bound: "status_val h s = Some v \<Longrightarrow> slice_refs (ms_Conditions s) \<subseteq> {..<lim h}"
  by (auto simp: status_val_def conditions_val_def slice_refs_def
      split: option.splits cell.splits if_splits dest: deref_bound)

lemma lb_val_bound: "lb_val h m = Some v \<Longrightarrow> lb_refs m \<subseteq> {..<lim h}"
  using meta_val_bound [of h "m_Meta m"] status_val_bound [of h "m_Status m"]
  by (auto simp: lb_val_def lb_refs_def split: option.splits)

lemma deref_extends: "extends h h' \<Longrightarrow> a < lim h \<Longrightarrow> deref h' a = deref h a"
  by (simp add: extends_def deref_def)

lemma meta_val_extends: "extends h h' \<Longrightarrow> meta_val h m = Some v \<Longrightarrow> meta_val h' m = Some v"
  using meta_val_agree [of m h' h] meta_val_bound [of h m v] deref_extends [of h h'] by auto

lemma status_val_extends: "extends h h' \<Longrightarrow> status_val h s = Some v \<Longrightarrow> status_val h' s = Some v"
  using status_val_agree [of s h' h] status_val_bound [of h s v] deref_extends [of h h'] by auto

lemma lb_val_extends: "extends h h' \<Longrightarrow> lb_val h m = Some v \<Longrightarrow> lb_val h' m = Some v"
  using lb_val_agree [of m h' h] lb_val_bound [of h m v] deref_extends [of h h'] by auto

lemma deref_write: "a \<noteq> b \<Longrightarrow> deref (heap_write a c h) b = deref h b"
  by (simp add: deref_def)

lemma lb_val_write: "a \<notin> lb_refs m \<Longrightarrow> lb_val (heap_write a c h) m = lb_val h m"
  by (rule lb_val_agree, rule deref_write) auto

lemma list_meta_val_agree:
  "(\<And>a. a \<in> set_option (lm_RemainingItemCount m) \<Longrightarrow> deref h' a = deref h a) \<Longrightarrow> list_meta_val h' m = list_meta_val h m"
  by (auto simp: list_meta_val_def count_val_def split: option.split)

lemma list_meta_val_bound: "list_meta_val h m = Some v \<Longrightarrow> set_option (lm_RemainingItemCount m) \<subseteq> {..<lim h}"
  by (auto simp: list_meta_val_def count_val_def split: option.splits cell.splits dest: deref_bound)

lemma list_meta_val_extends: "extends h h' \<Longrightarrow> list_meta_val h m = Some v \<Longrightarrow> list_meta_val h' m = Some v"
  using list_meta_val_agree [of m h' h] list_meta_val_bound [of h m v] deref_extends [of h h'] by auto

lemma items_val_agree:
  assumes "\<And>a. a \<in> items_refs h p \<Longrightarrow> deref h' a = deref h a"
  shows "items_val h' p = items_val h p"
proof (cases p)
  case (Some s)
  with assms have s: "deref h' (s_arr s) = deref h (s_arr s)" by (simp add: items_refs_def)
  show ?thesis
  proof (cases "\<exists>ms. deref h (s_arr s) = Some (CLBs ms)")
    case True
    then obtain ms where ms: "deref h (s_arr s) = Some (CLBs ms)" by blast
    have "map (lb_val h') (take (s_len s) ms) = map (lb_val h) (take (s_len s) ms)"
      by (rule map_cong [OF refl], rule lb_val_agree, rule assms) (auto simp: items_refs_def Some ms)
    with s ms Some show ?thesis by (simp add: items_val_def del: map_eq_conv)
  qed (use s Some in \<open>auto simp: items_val_def split: option.split cell.split\<close>)
qed (simp add: items_val_def)

lemma items_refs_agree:
  "(\<And>a. a \<in> items_refs h p \<Longrightarrow> deref h' a = deref h a) \<Longrightarrow> items_refs h' p = items_refs h p"
  by (cases p) (simp_all add: items_refs_def)

lemma those_Some: "those xs = Some ys \<longleftrightarrow> length ys = length xs \<and> (\<forall>i < length xs. xs ! i = Some (ys ! i))"
proof (induction xs arbitrary: ys)
  case (Cons x xs)
  show ?case
  proof (cases ys)
    case Nil
    then show ?thesis by (auto split: option.splits)
  next
    case (Cons y zs)
    with Cons.IH [of zs] show ?thesis by (auto simp: less_Suc_eq_0_disj split: option.splits)
  qed
qed auto

lemma items_val_bound: "items_val h p = Some v \<Longrightarrow> items_refs h p \<subseteq> {..<lim h}"
  by (fastforce simp: items_val_def items_refs_def those_Some in_set_conv_nth
      split: option.splits cell.splits if_splits dest: deref_bound lb_val_bound)

lemma items_val_extends: "extends h h' \<Longrightarrow> items_val h p = Some v \<Longrightarrow> items_val h' p = Some v"
  using items_val_agree [of h p h'] items_val_bound [of h p v] deref_extends [of h h'] by auto

section \<open>Copies into\<close>

text \<open>
  What is relied on of apimachinery: the copy of the metadata has the same value, is made of new cells
  only and changes no old one; the copy of a condition, which contains no reference, is that condition.
\<close>

definition copy_spec :: "copy_lib \<Rightarrow> bool" where
  "copy_spec D \<longleftrightarrow>
     (\<forall>h m v m' h'. meta_val h m = Some v \<and> ObjectMeta_DeepCopyInto D h m = (m', h') \<longrightarrow>
        extends h h' \<and> meta_val h' m' = Some v \<and> meta_refs m' \<subseteq> {lim h..<lim h'})
     \<and> (\<forall>h m v m' h'. list_meta_val h m = Some v \<and> ListMeta_DeepCopyInto D h m = (m', h') \<longrightarrow>
        extends h h' \<and> list_meta_val h' m' = Some v \<and> set_option (lm_RemainingItemCount m') \<subseteq> {lim h..<lim h'})
     \<and> (\<forall>c. Condition_DeepCopyInto D c = c)"

lemma copy_conditions_loop:
  assumes "\<And>c. Condition_DeepCopyInto D c = c" and "cells h (s_arr s) = Some (CConditions cs)"
    and "cells h a = Some (CConditions ds)" and "a \<noteq> s_arr s" and "n \<le> length cs" and "n \<le> length ds"
  shows "fold (copy_condition D s a) [0..<n] h = heap_write a (CConditions (take n cs @ drop n ds)) h"
  using assms(5,6)
proof (induction n)
  case 0
  then show ?case using assms(3) by (simp add: heap_write_def fun_upd_idem)
next
  case (Suc n)
  then have "(take n cs @ drop n ds)[n := cs ! n] = take (Suc n) cs @ drop (Suc n) ds"
    by (simp add: list_update_append take_Suc_conv_app_nth Cons_nth_drop_Suc [symmetric])
  with Suc assms(1-4) show ?case by (simp add: copy_condition_def heap_write_def)
qed

lemma Status_DeepCopyInto_copy:
  assumes "copy_spec D" and "status_val h s = Some v" and "Status_DeepCopyInto D h s = (s', h')"
  shows "extends h h' \<and> status_val h' s' = Some v \<and> slice_refs (ms_Conditions s') \<subseteq> {lim h..<lim h'}"
proof (cases "ms_Conditions s")
  case None
  with assms(2,3) show ?thesis by (simp add: Status_DeepCopyInto_def slice_refs_def)
next
  case (Some sl)
  with assms(2) obtain cs where cs: "s_arr sl < lim h" "cells h (s_arr sl) = Some (CConditions cs)" "s_len sl \<le> length cs"
    and v: "v = \<lparr>Conditions = Some (take (s_len sl) cs), LBNetworkID = ms_LBNetworkID s, LBSubnetID = ms_LBSubnetID s, Ready = ms_Ready s\<rparr>"
    by (auto simp: status_val_def conditions_val_def deref_def split: option.splits cell.splits if_splits)
  let ?ds = "replicate (s_len sl) zero_condition"
  let ?h1 = "snd (alloc (CConditions ?ds) h)"
  have "fold (copy_condition D sl (lim h)) [0..<s_len sl] ?h1
      = heap_write (lim h) (CConditions (take (s_len sl) cs @ drop (s_len sl) ?ds)) ?h1"
    by (rule copy_conditions_loop) (use assms(1) cs in \<open>auto simp: copy_spec_def\<close>)
  with assms(3) Some have "h' = heap_write (lim h) (CConditions (take (s_len sl) cs)) ?h1"
    "s' = s\<lparr>ms_Conditions := Some \<lparr>s_arr = lim h, s_len = s_len sl, s_cap = s_len sl\<rparr>\<rparr>"
    by (auto simp: Status_DeepCopyInto_def alloc_def Let_def)
  with cs(3) show ?thesis
    by (auto simp: extends_def status_val_def conditions_val_def deref_def slice_refs_def v)
qed

lemma LB_DeepCopyInto_copy:
  assumes "copy_spec D" and "lb_val h m = Some v" and "LB_DeepCopyInto D h m = (m', h')"
  shows "extends h h' \<and> lb_val h' m' = Some v \<and> lb_refs m' \<subseteq> {lim h..<lim h'}"
proof -
  from assms(2) obtain mt st where v: "meta_val h (m_Meta m) = Some mt" "status_val h (m_Status m) = Some st"
    "v = (m_TypeMeta m, \<lparr>lbMeta = mt, Spec = m_Spec m, Status = st\<rparr>)"
    by (auto simp: lb_val_def split: option.splits)
  obtain mm h1 where mm: "ObjectMeta_DeepCopyInto D h (m_Meta m) = (mm, h1)" by fastforce
  obtain ms h2 where ms: "Status_DeepCopyInto D h1 (m_Status m) = (ms, h2)" by fastforce
  from assms(1) v(1) mm have 1: "extends h h1" "meta_val h1 mm = Some mt" "meta_refs mm \<subseteq> {lim h..<lim h1}"
    unfolding copy_spec_def by blast+
  from Status_DeepCopyInto_copy [OF assms(1) status_val_extends [OF 1(1) v(2)] ms]
  have 2: "extends h1 h2" "status_val h2 ms = Some st" "slice_refs (ms_Conditions ms) \<subseteq> {lim h1..<lim h2}" by auto
  have r: "m' = m\<lparr>m_Meta := mm, m_Status := ms\<rparr>" "h' = h2" using assms(3) mm ms by (auto simp: LB_DeepCopyInto_def)
  show ?thesis
    using extends_trans [OF 1(1) 2(1)] meta_val_extends [OF 2(1) 1(2)] 1 2 v(3)
    by (auto simp: r lb_val_def lb_refs_def extends_def)
qed

text \<open>The loop over the items: the first \<open>n\<close> are copied, each into cells behind the new array.\<close>

definition items_copied :: "memory \<Rightarrow> mem_lb list \<Rightarrow> nat \<Rightarrow> nat \<Rightarrow> nat \<Rightarrow> memory \<Rightarrow> bool" where
  "items_copied h ms len a n h' \<longleftrightarrow> extends h h' \<and> a < lim h' \<and> (\<exists>os. cells h' a = Some (CLBs os) \<and> length os = len
     \<and> (\<forall>i < n. lb_val h' (os ! i) = lb_val h (ms ! i) \<and> lb_refs (os ! i) \<subseteq> {Suc a..<lim h'}))"

lemma copy_item_step:
  assumes D: "copy_spec D" and inv: "items_copied h ms len (lim h) n h'" and n: "n < len"
    and src: "s_arr s < lim h" "cells h (s_arr s) = Some (CLBs ms)" and v: "lb_val h (ms ! n) = Some v"
  shows "items_copied h ms len (lim h) (Suc n) (copy_item D s (lim h) n h')"
proof -
  let ?a = "lim h"
  from inv obtain os where e: "extends h h'" and a: "?a < lim h'" and os: "cells h' ?a = Some (CLBs os)" "length os = len"
    and prev: "\<And>i. i < n \<Longrightarrow> lb_val h' (os ! i) = lb_val h (ms ! i) \<and> lb_refs (os ! i) \<subseteq> {Suc ?a..<lim h'}"
    by (auto simp: items_copied_def)
  obtain m h2 where m: "LB_DeepCopyInto D h' (ms ! n) = (m, h2)" by fastforce
  from LB_DeepCopyInto_copy [OF D lb_val_extends [OF e v] m]
  have c: "extends h' h2" "lb_val h2 m = Some v" "lb_refs m \<subseteq> {lim h'..<lim h2}" by auto
  let ?h3 = "heap_write ?a (CLBs (os[n := m])) h2"
  have "cells h' (s_arr s) = Some (CLBs ms)" using e src by (simp add: extends_def)
  moreover have "cells h2 ?a = Some (CLBs os)" using c(1) a os by (simp add: extends_def)
  ultimately have h3: "copy_item D s ?a n h' = ?h3" by (simp add: copy_item_def m)
  have old: "lb_val ?h3 (os ! i) = lb_val h (ms ! i) \<and> lb_refs (os ! i) \<subseteq> {Suc ?a..<lim h2}" if "i < n" for i
  proof -
    have r: "lb_refs (os ! i) \<subseteq> {Suc ?a..<lim h'}" using prev [OF that] by simp
    then have "?a \<notin> lb_refs (os ! i)" by auto
    then have "lb_val ?h3 (os ! i) = lb_val h2 (os ! i)" by (rule lb_val_write)
    also have "\<dots> = lb_val h' (os ! i)" using r c(1) by (intro lb_val_agree deref_extends) auto
    finally show ?thesis using prev [OF that] c(1) by (auto simp: extends_def)
  qed
  have "?a \<notin> lb_refs m" using c(3) a by auto
  then have new: "lb_val ?h3 m = lb_val h (ms ! n)" using c(2) v by (simp add: lb_val_write)
  have "extends h ?h3" using extends_write [OF extends_trans [OF e c(1)]] by simp
  moreover have "lb_val ?h3 (os[n := m] ! i) = lb_val h (ms ! i) \<and> lb_refs (os[n := m] ! i) \<subseteq> {Suc ?a..<lim ?h3}" if "i < Suc n" for i
  proof (cases "i = n")
    case True
    then show ?thesis using new c(3) a n os(2) by auto
  next
    case False
    then show ?thesis using old [of i] that by simp
  qed
  moreover have "?a < lim ?h3" using a c(1) by (simp add: extends_def)
  ultimately show ?thesis unfolding h3 items_copied_def using os(2) by auto
qed

lemma List_DeepCopyInto_items:
  assumes D: "copy_spec D" and v: "items_val h (Some s) = Some (Some vs)"
    and h': "h' = fold (copy_item D s (lim h)) [0..<s_len s] (snd (alloc (CLBs (replicate (s_len s) zero_lb)) h))"
    and s': "s' = \<lparr>s_arr = lim h, s_len = s_len s, s_cap = s_len s\<rparr>"
  shows "extends h h' \<and> items_val h' (Some s') = Some (Some vs) \<and> items_refs h' (Some s') \<subseteq> {lim h..<lim h'}"
proof -
  from v obtain ms where ms: "s_arr s < lim h" "cells h (s_arr s) = Some (CLBs ms)" "s_len s \<le> length ms"
    and t: "those (map (lb_val h) (take (s_len s) ms)) = Some vs"
    by (auto simp: items_val_def deref_def split: option.splits cell.splits if_splits)
  then have vs: "length vs = s_len s" "\<And>i. i < s_len s \<Longrightarrow> lb_val h (ms ! i) = Some (vs ! i)"
    by (auto simp: those_Some)
  let ?h0 = "snd (alloc (CLBs (replicate (s_len s) zero_lb)) h)"
  have "items_copied h ms (s_len s) (lim h) n (fold (copy_item D s (lim h)) [0..<n] ?h0)" if "n \<le> s_len s" for n
    using that
  proof (induction n)
    case 0
    have "extends h ?h0" by (rule extends_alloc [of "CLBs (replicate (s_len s) zero_lb)" h "lim h"]) (simp add: alloc_def)
    then show ?case by (simp add: items_copied_def)
  next
    case (Suc n)
    then show ?case using copy_item_step [OF D Suc.IH _ ms(1,2) vs(2)] by simp
  qed
  then have "items_copied h ms (s_len s) (lim h) (s_len s) h'" by (simp add: h')
  then obtain os where os: "extends h h'" "lim h < lim h'" "cells h' (lim h) = Some (CLBs os)" "length os = s_len s"
    and i: "\<And>i. i < s_len s \<Longrightarrow> lb_val h' (os ! i) = Some (vs ! i) \<and> lb_refs (os ! i) \<subseteq> {Suc (lim h)..<lim h'}"
    using vs(2) by (auto simp: items_copied_def)
  have "those (map (lb_val h') os) = Some vs" using i os(4) vs(1) by (simp add: those_Some)
  moreover have "\<Union> (lb_refs ` set os) \<subseteq> {lim h..<lim h'}" using i os(4) by (fastforce simp: in_set_conv_nth)
  ultimately show ?thesis using os by (simp add: items_val_def items_refs_def deref_def s')
qed

lemma List_DeepCopyInto_copy:
  assumes "copy_spec D" and "list_meta_val h (l_Meta l) = Some mt" and "items_val h (l_Items l) = Some xs"
    and "List_DeepCopyInto D h l = (l', h')"
  shows "extends h h' \<and> l_TypeMeta l' = l_TypeMeta l \<and> list_meta_val h' (l_Meta l') = Some mt
    \<and> items_val h' (l_Items l') = Some xs
    \<and> set_option (lm_RemainingItemCount (l_Meta l')) \<union> items_refs h' (l_Items l') \<subseteq> {lim h..<lim h'}"
proof -
  obtain m h1 where m: "ListMeta_DeepCopyInto D h (l_Meta l) = (m, h1)" by fastforce
  with assms(1,2) have 1: "extends h h1" "list_meta_val h1 m = Some mt" "set_option (lm_RemainingItemCount m) \<subseteq> {lim h..<lim h1}"
    unfolding copy_spec_def by blast+
  show ?thesis
  proof (cases "l_Items l")
    case None
    with assms(3,4) m 1 show ?thesis by (auto simp: List_DeepCopyInto_def items_val_def items_refs_def)
  next
    case (Some s)
    with assms(3) obtain vs where xs: "xs = Some vs" by (auto simp: items_val_def split: option.splits cell.splits if_splits)
    let ?s' = "\<lparr>s_arr = lim h1, s_len = s_len s, s_cap = s_len s\<rparr>"
    let ?h2 = "fold (copy_item D s (lim h1)) [0..<s_len s] (snd (alloc (CLBs (replicate (s_len s) zero_lb)) h1))"
    have r: "l' = l\<lparr>l_Meta := m, l_Items := Some ?s'\<rparr>" "h' = ?h2"
      using assms(4) m Some by (auto simp: List_DeepCopyInto_def alloc_def Let_def)
    have "items_val h1 (Some s) = Some (Some vs)"
      using items_val_extends [OF 1(1)] assms(3) Some xs by simp
    from List_DeepCopyInto_items [OF assms(1) this refl refl]
    have 2: "extends h1 ?h2" "items_val ?h2 (Some ?s') = Some xs" "items_refs ?h2 (Some ?s') \<subseteq> {lim h1..<lim ?h2}"
      by (auto simp: xs)
    have "list_meta_val ?h2 m = Some mt" using list_meta_val_extends [OF 2(1) 1(2)] .
    with 1 2 extends_trans [OF 1(1) 2(1)] show ?thesis by (auto simp: r extends_def)
  qed
qed

section \<open>Independence\<close>

text \<open>
  What a kind of object shows of the memory: its value depends on the reachable cells only, and these
  are allocated.
\<close>

locale object_view =
  fixes val :: "memory \<Rightarrow> nat \<Rightarrow> 'v option" and reach :: "memory \<Rightarrow> nat \<Rightarrow> nat set"
  assumes val_agree: "(\<And>a. a \<in> reach h p \<Longrightarrow> deref h' a = deref h a) \<Longrightarrow> val h' p = val h p"
    and reach_bound: "val h p = Some v \<Longrightarrow> reach h p \<subseteq> {..<lim h}"
begin

text \<open>The value survives everything that is done to cells that it does not reach.\<close>

lemma val_extends: "extends h h' \<Longrightarrow> val h p = Some v \<Longrightarrow> val h' p = Some v"
  using val_agree [of h p h'] reach_bound [of h p v] deref_extends [of h h'] by auto

lemma val_above:
  assumes "reach h p \<subseteq> {n..<lim h}" and "lim h \<le> lim h'" and "\<And>a. n \<le> a \<Longrightarrow> a < lim h \<Longrightarrow> cells h' a = cells h a"
  shows "val h' p = val h p"
  by (rule val_agree) (use assms in \<open>fastforce simp: deref_def\<close>)

end

text \<open>
  \<open>q\<close> is an independent copy of \<open>p\<close>: an equal object of new cells only. Whatever happens later to cells
  that are new since the copy began leaves the original alone, and whatever happens to the older cells
  leaves the copy alone.
\<close>

definition independent_copy ::
  "(memory \<Rightarrow> nat \<Rightarrow> 'v option) \<Rightarrow> (memory \<Rightarrow> nat \<Rightarrow> nat set) \<Rightarrow> memory \<Rightarrow> nat \<Rightarrow> memory \<Rightarrow> nat \<Rightarrow> bool" where
  "independent_copy val reach h p h' q \<longleftrightarrow>
     val h' p = val h p \<and> val h' q = val h p
     \<and> reach h p \<inter> reach h' q = {}
     \<and> (\<forall>h''. lim h' \<le> lim h'' \<and> (\<forall>a < lim h. cells h'' a = cells h' a) \<longrightarrow> val h'' p = val h p)
     \<and> (\<forall>h''. lim h' \<le> lim h'' \<and> (\<forall>a. lim h \<le> a \<and> a < lim h' \<longrightarrow> cells h'' a = cells h' a) \<longrightarrow> val h'' q = val h p)"

context object_view
begin

lemma independent_copyI:
  assumes "val h p = Some v" and "extends h h'" and "val h' q = Some v" and "reach h' q \<subseteq> {lim h..<lim h'}"
  shows "independent_copy val reach h p h' q"
proof -
  have "reach h p \<inter> reach h' q = {}" using reach_bound [OF assms(1)] assms(4) by fastforce
  moreover have "val h'' p = Some v" if "lim h' \<le> lim h''" "\<forall>a < lim h. cells h'' a = cells h' a" for h''
    using val_extends [of h h'' p v] assms(1,2) that by (simp add: extends_def)
  moreover have "val h'' q = Some v"
    if "lim h' \<le> lim h''" "\<forall>a. lim h \<le> a \<and> a < lim h' \<longrightarrow> cells h'' a = cells h' a" for h''
    using val_above [OF assms(4)] assms(3) that by simp
  ultimately show ?thesis using assms val_extends [OF assms(2,1)] by (simp add: independent_copy_def)
qed

end

interpretation lb_view: object_view lb_at lb_reach
proof
  fix h h' p assume *: "\<And>a. a \<in> lb_reach h p \<Longrightarrow> deref h' a = deref h a"
  then have "deref h' p = deref h p" by (simp add: lb_reach_def)
  with * lb_val_agree [of _ h' h] show "lb_at h' p = lb_at h p"
    by (auto simp: lb_at_def lb_reach_def split: option.split cell.split)
next
  fix h p v assume "lb_at h p = Some v"
  then show "lb_reach h p \<subseteq> {..<lim h}"
    by (auto simp: lb_at_def lb_reach_def split: option.splits cell.splits dest: deref_bound lb_val_bound)
qed

interpretation list_view: object_view list_at list_reach
proof
  fix h h' p assume *: "\<And>a. a \<in> list_reach h p \<Longrightarrow> deref h' a = deref h a"
  then have p: "deref h' p = deref h p" by (simp add: list_reach_def)
  show "list_at h' p = list_at h p"
  proof (cases "deref h p")
    case (Some c)
    then show ?thesis
    proof (cases c)
      case (CList l)
      with Some * have "list_meta_val h' (l_Meta l) = list_meta_val h (l_Meta l)" "items_val h' (l_Items l) = items_val h (l_Items l)"
        by (auto simp: list_reach_def intro!: list_meta_val_agree items_val_agree)
      with p Some CList show ?thesis by (simp add: list_at_def)
    qed (use p Some in \<open>simp_all add: list_at_def\<close>)
  qed (use p in \<open>simp add: list_at_def\<close>)
next
  fix h p v assume "list_at h p = Some v"
  then show "list_reach h p \<subseteq> {..<lim h}"
    by (auto simp: list_at_def list_reach_def split: option.splits cell.splits
        dest: deref_bound list_meta_val_bound items_val_bound)
qed

lemma LB_DeepCopy_independent:
  assumes D: "copy_spec D" and v: "lb_at h p = Some v"
  obtains q h' where "LB_DeepCopy D h (Some p) = (Some q, h')" and "independent_copy lb_at lb_reach h p h' q"
proof -
  from v obtain m where m: "deref h p = Some (CLB m)" "cells h p = Some (CLB m)" "lb_val h m = Some v"
    by (auto simp: lb_at_def deref_def split: option.splits cell.splits if_splits)
  let ?h1 = "snd (alloc (CLB zero_lb) h)"
  have e1: "extends h ?h1" by (rule extends_alloc [of "CLB zero_lb" h "lim h"]) (simp add: alloc_def)
  obtain m' h2 where h2: "LB_DeepCopyInto D ?h1 m = (m', h2)" by fastforce
  from LB_DeepCopyInto_copy [OF D lb_val_extends [OF e1 m(3)] h2]
  have c: "extends ?h1 h2" "lb_val h2 m' = Some v" "lb_refs m' \<subseteq> {Suc (lim h)..<lim h2}" by auto
  let ?h3 = "heap_write (lim h) (CLB m') h2"
  have "lim h \<notin> lb_refs m'" using c(3) by auto
  then have "lb_at ?h3 (lim h) = Some v" "lb_reach ?h3 (lim h) \<subseteq> {lim h..<lim ?h3}"
    using c by (auto simp: lb_at_def lb_reach_def deref_def extends_def lb_val_write)
  moreover have "extends h ?h3" using extends_write [OF extends_trans [OF e1 c(1)]] by simp
  ultimately have "independent_copy lb_at lb_reach h p ?h3 (lim h)"
    using lb_view.independent_copyI [OF v] by blast
  moreover have "LB_DeepCopy D h (Some p) = (Some (lim h), ?h3)"
    using m(2) h2 by (simp add: LB_DeepCopy_def alloc_def)
  ultimately show thesis by (rule that [rotated])
qed

lemma List_DeepCopy_independent:
  assumes D: "copy_spec D" and v: "list_at h p = Some v"
  obtains q h' where "List_DeepCopy D h (Some p) = (Some q, h')" and "independent_copy list_at list_reach h p h' q"
proof -
  from v obtain l mt xs where l: "cells h p = Some (CList l)" "list_meta_val h (l_Meta l) = Some mt"
    "items_val h (l_Items l) = Some xs" "v = (l_TypeMeta l, mt, xs)"
    by (auto simp: list_at_def deref_def split: option.splits cell.splits if_splits)
  let ?h1 = "snd (alloc (CList zero_list) h)"
  have e1: "extends h ?h1" by (rule extends_alloc [of "CList zero_list" h "lim h"]) (simp add: alloc_def)
  obtain l' h2 where h2: "List_DeepCopyInto D ?h1 l = (l', h2)" by fastforce
  from List_DeepCopyInto_copy [OF D list_meta_val_extends [OF e1 l(2)] items_val_extends [OF e1 l(3)] h2]
  have c: "extends ?h1 h2" "l_TypeMeta l' = l_TypeMeta l" "list_meta_val h2 (l_Meta l') = Some mt" "items_val h2 (l_Items l') = Some xs"
    "set_option (lm_RemainingItemCount (l_Meta l')) \<union> items_refs h2 (l_Items l') \<subseteq> {Suc (lim h)..<lim h2}" by auto
  let ?h3 = "heap_write (lim h) (CList l') h2"
  have d: "deref ?h3 a = deref h2 a" if "a \<in> set_option (lm_RemainingItemCount (l_Meta l')) \<union> items_refs h2 (l_Items l')" for a
    by (rule deref_write) (use c(5) that in auto)
  have "list_meta_val ?h3 (l_Meta l') = Some mt" using list_meta_val_agree [OF d] c(3) by auto
  moreover have "items_val ?h3 (l_Items l') = Some xs" using items_val_agree [OF d] c(4) by auto
  moreover have "items_refs ?h3 (l_Items l') = items_refs h2 (l_Items l')" by (rule items_refs_agree, rule d) simp
  ultimately have "list_at ?h3 (lim h) = Some v" "list_reach ?h3 (lim h) \<subseteq> {lim h..<lim ?h3}"
    using c l(4) by (auto simp: list_at_def list_reach_def deref_def extends_def)
  moreover have "extends h ?h3" using extends_write [OF extends_trans [OF e1 c(1)]] by simp
  ultimately have "independent_copy list_at list_reach h p ?h3 (lim h)"
    using list_view.independent_copyI [OF v] by blast
  moreover have "List_DeepCopy D h (Some p) = (Some (lim h), ?h3)"
    using l(1) h2 by (simp add: List_DeepCopy_def alloc_def)
  ultimately show thesis by (rule that [rotated])
qed

text \<open>The parts of the resource, on their own: the status, and the two types without references.\<close>

definition status_at :: "memory \<Rightarrow> nat \<Rightarrow> OpenStackLoadBalancerStatus option" where
  "status_at h p = (case deref h p of Some (CStatus s) \<Rightarrow> status_val h s | _ \<Rightarrow> None)"

definition status_reach :: "memory \<Rightarrow> nat \<Rightarrow> nat set" where
  "status_reach h p = insert p (case deref h p of Some (CStatus s) \<Rightarrow> slice_refs (ms_Conditions s) | _ \<Rightarrow> {})"

definition spec_at :: "memory \<Rightarrow> nat \<Rightarrow> OpenStackLoadBalancerSpec option" where
  "spec_at h p = (case deref h p of Some (CSpec s) \<Rightarrow> Some s | _ \<Rightarrow> None)"

definition ref_at :: "memory \<Rightarrow> nat \<Rightarrow> SecretReference option" where
  "ref_at h p = (case deref h p of Some (CSecretRef r) \<Rightarrow> Some r | _ \<Rightarrow> None)"

definition cell_reach :: "memory \<Rightarrow> nat \<Rightarrow> nat set" where
  "cell_reach h p = {p}"

interpretation status_view: object_view status_at status_reach
proof
  fix h h' p assume *: "\<And>a. a \<in> status_reach h p \<Longrightarrow> deref h' a = deref h a"
  then have "deref h' p = deref h p" by (simp add: status_reach_def)
  with * status_val_agree [of _ h' h] show "status_at h' p = status_at h p"
    by (auto simp: status_at_def status_reach_def split: option.split cell.split)
next
  fix h p v assume "status_at h p = Some v"
  then show "status_reach h p \<subseteq> {..<lim h}"
    by (auto simp: status_at_def status_reach_def split: option.splits cell.splits dest: deref_bound status_val_bound)
qed

interpretation spec_view: object_view spec_at cell_reach
  by unfold_locales (auto simp: spec_at_def cell_reach_def split: option.splits dest: deref_bound)

interpretation ref_view: object_view ref_at cell_reach
  by unfold_locales (auto simp: ref_at_def cell_reach_def split: option.splits dest: deref_bound)

lemma Status_DeepCopy_independent:
  assumes D: "copy_spec D" and v: "status_at h p = Some v"
  obtains q h' where "Status_DeepCopy D h (Some p) = (Some q, h')" and "independent_copy status_at status_reach h p h' q"
proof -
  from v obtain s where s: "cells h p = Some (CStatus s)" "status_val h s = Some v"
    by (auto simp: status_at_def deref_def split: option.splits cell.splits if_splits)
  let ?h1 = "snd (alloc (CStatus zero_status) h)"
  have e1: "extends h ?h1" by (rule extends_alloc [of "CStatus zero_status" h "lim h"]) (simp add: alloc_def)
  obtain s' h2 where h2: "Status_DeepCopyInto D ?h1 s = (s', h2)" by fastforce
  from Status_DeepCopyInto_copy [OF D status_val_extends [OF e1 s(2)] h2]
  have c: "extends ?h1 h2" "status_val h2 s' = Some v" "slice_refs (ms_Conditions s') \<subseteq> {Suc (lim h)..<lim h2}" by auto
  let ?h3 = "heap_write (lim h) (CStatus s') h2"
  have "status_val ?h3 s' = status_val h2 s'" by (rule status_val_agree, rule deref_write) (use c(3) in auto)
  then have "status_at ?h3 (lim h) = Some v" "status_reach ?h3 (lim h) \<subseteq> {lim h..<lim ?h3}"
    using c by (auto simp: status_at_def status_reach_def deref_def extends_def)
  moreover have "extends h ?h3" using extends_write [OF extends_trans [OF e1 c(1)]] by simp
  ultimately have "independent_copy status_at status_reach h p ?h3 (lim h)"
    using status_view.independent_copyI [OF v] by blast
  moreover have "Status_DeepCopy D h (Some p) = (Some (lim h), ?h3)"
    using s(1) h2 by (simp add: Status_DeepCopy_def alloc_def)
  ultimately show thesis by (rule that [rotated])
qed

lemma Spec_DeepCopy_independent:
  assumes "spec_at h p = Some v"
  obtains q h' where "Spec_DeepCopy h (Some p) = (Some q, h')" and "independent_copy spec_at cell_reach h p h' q"
proof -
  from assms have p: "cells h p = Some (CSpec v)"
    by (auto simp: spec_at_def deref_def split: option.splits cell.splits if_splits)
  let ?h' = "heap_write (lim h) (CSpec v) (snd (alloc (CSpec zero_spec) h))"
  have "Spec_DeepCopy h (Some p) = (Some (lim h), ?h')"
    using p by (simp add: Spec_DeepCopy_def alloc_def Spec_DeepCopyInto_def)
  moreover have "independent_copy spec_at cell_reach h p ?h' (lim h)"
    by (rule spec_view.independent_copyI [OF assms]) (auto simp: extends_def spec_at_def cell_reach_def deref_def)
  ultimately show thesis by (rule that)
qed

lemma SecretReference_DeepCopy_independent:
  assumes "ref_at h p = Some v"
  obtains q h' where "SecretReference_DeepCopy h (Some p) = (Some q, h')" and "independent_copy ref_at cell_reach h p h' q"
proof -
  from assms have p: "cells h p = Some (CSecretRef v)"
    by (auto simp: ref_at_def deref_def split: option.splits cell.splits if_splits)
  let ?h' = "heap_write (lim h) (CSecretRef v) (snd (alloc (CSecretRef zero_ref) h))"
  have "SecretReference_DeepCopy h (Some p) = (Some (lim h), ?h')"
    using p by (simp add: SecretReference_DeepCopy_def alloc_def SecretReference_DeepCopyInto_def)
  moreover have "independent_copy ref_at cell_reach h p ?h' (lim h)"
    by (rule ref_view.independent_copyI [OF assms]) (auto simp: extends_def ref_at_def cell_reach_def deref_def)
  ultimately show thesis by (rule that)
qed

section \<open>The contract of the copy functions\<close>

text \<open>Nil is copied to nil, every object to an independent copy of it.\<close>

definition deep_copies ::
  "(memory \<Rightarrow> nat option \<Rightarrow> nat option \<times> memory) \<Rightarrow> (memory \<Rightarrow> nat \<Rightarrow> 'v option) \<Rightarrow> (memory \<Rightarrow> nat \<Rightarrow> nat set) \<Rightarrow> bool" where
  "deep_copies copy val reach \<longleftrightarrow>
     (\<forall>h. copy h None = (None, h))
     \<and> (\<forall>h p v. val h p = Some v \<longrightarrow> (\<exists>q h'. copy h (Some p) = (Some q, h') \<and> independent_copy val reach h p h' q))"

lemma DeepCopyObject_eq:
  "LB_DeepCopyObject D = LB_DeepCopy D" "List_DeepCopyObject D = List_DeepCopy D"
  by (auto simp: fun_eq_iff LB_DeepCopyObject_def List_DeepCopyObject_def split: prod.split option.split)

text \<open>
  A copy library: every map, slice and pointer of the metadata is copied to a new cell.
\<close>

definition new_cell :: "memory \<Rightarrow> cell option \<Rightarrow> nat option \<times> memory" where
  "new_cell h c = (case c of None \<Rightarrow> (None, h) | Some v \<Rightarrow> let (a, h') = alloc v h in (Some a, h'))"

definition new_slice :: "memory \<Rightarrow> slice option \<Rightarrow> slice option \<times> memory" where
  "new_slice h s = (case s of None \<Rightarrow> (None, h)
     | Some v \<Rightarrow> let (a, h') = alloc (the (deref h (s_arr v))) h in (Some \<lparr>s_arr = a, s_len = s_len v, s_cap = s_cap v\<rparr>, h'))"

definition sample_copy_lib :: copy_lib where
  "sample_copy_lib = \<lparr>
     ObjectMeta_DeepCopyInto = (\<lambda>h m.
       let (an, h1) = new_cell h (Option.bind (mm_Annotations m) (deref h));
           (fs, h2) = new_slice h1 (mm_Finalizers m);
           (t, h3) = new_cell h2 (Option.bind (mm_DeletionTimestamp m) (deref h))
       in (m\<lparr>mm_Annotations := an, mm_Finalizers := fs, mm_DeletionTimestamp := t\<rparr>, h3)),
     ListMeta_DeepCopyInto = (\<lambda>h m.
       let (n, h1) = new_cell h (Option.bind (lm_RemainingItemCount m) (deref h))
       in (m\<lparr>lm_RemainingItemCount := n\<rparr>, h1)),
     Condition_DeepCopyInto = (\<lambda>c. c)\<rparr>"

lemma new_cell_copies:
  assumes "new_cell h' (Option.bind p (deref h)) = (q, h'')"
  shows "annotations_val h p = Some an \<Longrightarrow> extends h' h'' \<and> annotations_val h'' q = Some an \<and> set_option q \<subseteq> {lim h'..<lim h''}"
    and "time_val h p = Some t \<Longrightarrow> extends h' h'' \<and> time_val h'' q = Some t \<and> set_option q \<subseteq> {lim h'..<lim h''}"
    and "count_val h p = Some n \<Longrightarrow> extends h' h'' \<and> count_val h'' q = Some n \<and> set_option q \<subseteq> {lim h'..<lim h''}"
  using assms
  by (auto simp: new_cell_def alloc_def Let_def extends_def annotations_val_def time_val_def count_val_def deref_def
      split: option.splits cell.splits if_splits)

lemma new_slice_copies:
  assumes "new_slice h' s = (s', h'')" and "extends h h'" and "strings_val h s = Some xs"
  shows "extends h' h'' \<and> strings_val h'' s' = Some xs \<and> slice_refs s' \<subseteq> {lim h'..<lim h''}"
  using assms
  by (auto simp: new_slice_def alloc_def Let_def extends_def strings_val_def slice_refs_def deref_def
      split: option.splits cell.splits if_splits)

lemma sample_ObjectMeta_copy:
  assumes "meta_val h m = Some v" and "ObjectMeta_DeepCopyInto sample_copy_lib h m = (m', h')"
  shows "extends h h' \<and> meta_val h' m' = Some v \<and> meta_refs m' \<subseteq> {lim h..<lim h'}"
proof -
  obtain an h1 where an: "new_cell h (Option.bind (mm_Annotations m) (deref h)) = (an, h1)" by fastforce
  obtain fs h2 where fs: "new_slice h1 (mm_Finalizers m) = (fs, h2)" by fastforce
  obtain t h3 where t: "new_cell h2 (Option.bind (mm_DeletionTimestamp m) (deref h)) = (t, h3)" by fastforce
  have r: "m' = m\<lparr>mm_Annotations := an, mm_Finalizers := fs, mm_DeletionTimestamp := t\<rparr>" "h' = h3"
    using assms(2) an fs t by (auto simp: sample_copy_lib_def)
  from assms(1) obtain A F T where v: "annotations_val h (mm_Annotations m) = Some A" "strings_val h (mm_Finalizers m) = Some F"
    "time_val h (mm_DeletionTimestamp m) = Some T"
    "v = \<lparr>Name = mm_Name m, Namespace = mm_Namespace m, ResourceVersion = mm_ResourceVersion m, Annotations = A, Finalizers = F, DeletionTimestamp = T\<rparr>"
    by (auto simp: meta_val_def split: option.splits)
  from new_cell_copies(1) [OF an v(1)] have 1: "extends h h1" "annotations_val h1 an = Some A" "set_option an \<subseteq> {lim h..<lim h1}" by auto
  from new_slice_copies [OF fs 1(1) v(2)] have 2: "extends h1 h2" "strings_val h2 fs = Some F" "slice_refs fs \<subseteq> {lim h1..<lim h2}" by auto
  from new_cell_copies(2) [OF t v(3)] have 3: "extends h2 h3" "time_val h3 t = Some T" "set_option t \<subseteq> {lim h2..<lim h3}" by auto
  let ?n = "m\<lparr>mm_Annotations := an, mm_Finalizers := None, mm_DeletionTimestamp := None\<rparr>"
  let ?k = "m\<lparr>mm_Annotations := None, mm_Finalizers := fs, mm_DeletionTimestamp := None\<rparr>"
  have "meta_val h3 ?n = Some (v\<lparr>Finalizers := [], DeletionTimestamp := None\<rparr>)"
    by (rule meta_val_extends [OF extends_trans [OF 2(1) 3(1)]])
      (use 1(2) in \<open>simp add: meta_val_def strings_val_def time_val_def v(4)\<close>)
  then have "annotations_val h3 an = Some A" by (simp add: meta_val_def v(4) split: option.splits)
  moreover have "meta_val h3 ?k = Some (v\<lparr>Annotations := None, DeletionTimestamp := None\<rparr>)"
    by (rule meta_val_extends [OF 3(1)]) (use 2(2) in \<open>simp add: meta_val_def annotations_val_def time_val_def v(4)\<close>)
  then have "strings_val h3 fs = Some F" by (simp add: meta_val_def v(4) split: option.splits)
  ultimately have "meta_val h3 m' = Some v" using 3(2) by (simp add: meta_val_def r v(4))
  moreover have "extends h h3" using extends_trans [OF 1(1) extends_trans [OF 2(1) 3(1)]] .
  moreover have "meta_refs m' \<subseteq> {lim h..<lim h3}"
    using 1 2 3 by (fastforce simp: meta_refs_def r extends_def)
  ultimately show ?thesis by (simp add: r)
qed

lemma sample_copy_lib_spec: "copy_spec sample_copy_lib"
proof -
  have "extends h h' \<and> list_meta_val h' m' = Some v \<and> set_option (lm_RemainingItemCount m') \<subseteq> {lim h..<lim h'}"
    if "list_meta_val h m = Some v" "ListMeta_DeepCopyInto sample_copy_lib h m = (m', h')" for h m v m' h'
  proof -
    obtain n h1 where n: "new_cell h (Option.bind (lm_RemainingItemCount m) (deref h)) = (n, h1)" by fastforce
    from that(1) obtain N where N: "count_val h (lm_RemainingItemCount m) = Some N" "v = (lm_ResourceVersion m, lm_Continue m, N)"
      by (auto simp: list_meta_val_def)
    from that(2) n have "m' = m\<lparr>lm_RemainingItemCount := n\<rparr>" "h' = h1" by (auto simp: sample_copy_lib_def)
    with new_cell_copies(3) [OF n N(1)] N(2) show ?thesis by (simp add: list_meta_val_def)
  qed
  moreover have "Condition_DeepCopyInto sample_copy_lib c = c" for c by (simp add: sample_copy_lib_def)
  ultimately show ?thesis unfolding copy_spec_def using sample_ObjectMeta_copy by blast
qed

text \<open>A resource with annotations, a finalizer and a condition, in a list.\<close>

definition sample_memory :: memory where
  "sample_memory =
     (let m = \<lparr>m_TypeMeta = (''OpenStackLoadBalancer'', ''openstack.jacero.io/v1alpha1''),
                m_Meta = \<lparr>mm_Name = ''lb'', mm_Namespace = [], mm_ResourceVersion = ''7'', mm_Annotations = Some 0,
                  mm_Finalizers = Some \<lparr>s_arr = 1, s_len = 1, s_cap = 2\<rparr>, mm_DeletionTimestamp = None\<rparr>,
                m_Spec = zero_spec,
                m_Status = \<lparr>ms_Conditions = Some \<lparr>s_arr = 2, s_len = 1, s_cap = 1\<rparr>, ms_LBNetworkID = ''net'',
                  ms_LBSubnetID = [], ms_Ready = False\<rparr>\<rparr>;
          l = \<lparr>l_TypeMeta = ([], []), l_Meta = \<lparr>lm_ResourceVersion = ''9'', lm_Continue = [], lm_RemainingItemCount = None\<rparr>,
               l_Items = Some \<lparr>s_arr = 4, s_len = 1, s_cap = 1\<rparr>\<rparr>
      in \<lparr>cells = [0 \<mapsto> CMap [''k'' \<mapsto> ''v''], 1 \<mapsto> CStrings [''f'', ''g''], 2 \<mapsto> CConditions [zero_condition],
                   3 \<mapsto> CLB m, 4 \<mapsto> CLBs [m], 5 \<mapsto> CList l, 6 \<mapsto> CStatus (m_Status m)],
          lim = 7\<rparr>)"

text \<open>
  C28: the generated copy functions of the resource, its list and its parts make independent copies:
  the copy is equal to the original, they share no map, slice or pointer, nothing that is done later
  to cells made since the copy began is visible in the original, and nothing that is done to older
  cells is visible in the copy. A nil object is copied to nil.
\<close>

theorem deep_copies_are_independent:
  assumes "copy_spec D"
  shows "deep_copies (LB_DeepCopyObject D) lb_at lb_reach \<and> deep_copies (List_DeepCopyObject D) list_at list_reach
    \<and> deep_copies (LB_DeepCopy D) lb_at lb_reach \<and> deep_copies (List_DeepCopy D) list_at list_reach
    \<and> deep_copies (Status_DeepCopy D) status_at status_reach
    \<and> deep_copies Spec_DeepCopy spec_at cell_reach \<and> deep_copies SecretReference_DeepCopy ref_at cell_reach"
proof -
  have "deep_copies (LB_DeepCopy D) lb_at lb_reach"
    using LB_DeepCopy_independent [OF assms] by (fastforce simp: deep_copies_def LB_DeepCopy_def [of D _ None])
  moreover have "deep_copies (List_DeepCopy D) list_at list_reach"
    using List_DeepCopy_independent [OF assms] by (fastforce simp: deep_copies_def List_DeepCopy_def [of D _ None])
  moreover have "deep_copies (Status_DeepCopy D) status_at status_reach"
    using Status_DeepCopy_independent [OF assms] by (fastforce simp: deep_copies_def Status_DeepCopy_def [of D _ None])
  moreover have "deep_copies Spec_DeepCopy spec_at cell_reach"
    using Spec_DeepCopy_independent by (fastforce simp: deep_copies_def Spec_DeepCopy_def [of _ None])
  moreover have "deep_copies SecretReference_DeepCopy ref_at cell_reach"
    using SecretReference_DeepCopy_independent
    by (fastforce simp: deep_copies_def SecretReference_DeepCopy_def [of _ None])
  ultimately show ?thesis by (simp add: DeepCopyObject_eq)
qed

lemma sample_memory_values:
  "lb_at sample_memory 3 \<noteq> None" "list_at sample_memory 5 \<noteq> None" "status_at sample_memory 6 \<noteq> None"
  by (simp_all add: sample_memory_def lb_at_def list_at_def status_at_def deref_def lb_val_def meta_val_def status_val_def
      annotations_val_def strings_val_def time_val_def conditions_val_def list_meta_val_def count_val_def items_val_def Let_def)

lemma deep_copies_at:
  "deep_copies copy val reach \<Longrightarrow> val h p \<noteq> None
     \<Longrightarrow> \<exists>q h'. copy h (Some p) = (Some q, h') \<and> independent_copy val reach h p h' q"
  by (auto simp: deep_copies_def)

theorem deep_copies_are_independent_witness:
  "(\<exists>q h'. LB_DeepCopyObject sample_copy_lib sample_memory (Some 3) = (Some q, h')
       \<and> independent_copy lb_at lb_reach sample_memory 3 h' q)
   \<and> (\<exists>q h'. List_DeepCopyObject sample_copy_lib sample_memory (Some 5) = (Some q, h')
       \<and> independent_copy list_at list_reach sample_memory 5 h' q)
   \<and> (\<exists>q h'. Status_DeepCopy sample_copy_lib sample_memory (Some 6) = (Some q, h')
       \<and> independent_copy status_at status_reach sample_memory 6 h' q)"
  using deep_copies_are_independent [OF sample_copy_lib_spec] sample_memory_values by (simp add: deep_copies_at)

end
