(* ===== verification/Go_Flags.thy ===== *)
theory Go_Flags
  imports Api_Types
begin

text \<open>
  The parts of Go's standard library the entry point uses: command line flags (package \<open>flag\<close>) and
  \<open>filepath.Join\<close>. A flag set is a list of definitions over the variables \<open>'f\<close> the flags set.
\<close>

section \<open>Flags\<close>

text \<open>\<open>strconv.ParseBool\<close>.\<close>

definition ParseBool :: "string \<Rightarrow> bool option" where
  "ParseBool s =
     (if s \<in> {''1'', ''t'', ''T'', ''true'', ''TRUE'', ''True''} then Some True
      else if s \<in> {''0'', ''f'', ''F'', ''false'', ''FALSE'', ''False''} then Some False
      else None)"

text \<open>\<open>flagSet\<close> is the method \<open>Set\<close> of the flag's value; it may reject its argument.\<close>

record 'f Flag =
  flagName :: string
  IsBoolFlag :: bool
  flagSet :: "string \<Rightarrow> 'f \<Rightarrow> 'f option"

definition StringVar :: "string \<Rightarrow> (string \<Rightarrow> 'f \<Rightarrow> 'f) \<Rightarrow> 'f Flag" where
  "StringVar n upd = \<lparr>flagName = n, IsBoolFlag = False, flagSet = (\<lambda>v f. Some (upd v f))\<rparr>"

definition BoolVar :: "string \<Rightarrow> (bool \<Rightarrow> 'f \<Rightarrow> 'f) \<Rightarrow> 'f Flag" where
  "BoolVar n upd = \<lparr>flagName = n, IsBoolFlag = True, flagSet = (\<lambda>v f. map_option (\<lambda>b. upd b f) (ParseBool v))\<rparr>"

definition formal_flag :: "'f Flag list \<Rightarrow> string \<Rightarrow> 'f Flag option" where
  "formal_flag fs n = List.find (\<lambda>fl. flagName fl = n) fs"

datatype flag_error = BadFlagSyntax string | NotDefined string | NeedsArgument string | InvalidValue string string

text \<open>One step: no more flags, a flag was set, help was asked for, or the command line is wrong.\<close>

datatype 'f flag_step = NoMoreFlags "string list" | SetFlag 'f "string list" | ErrHelp | BadFlag flag_error

text \<open>Splits \<open>name=value\<close> at the first equals sign.\<close>

fun cut_value :: "string \<Rightarrow> string \<times> string option" where
  "cut_value [] = ([], None)"
| "cut_value (c # s) = (if c = CHR ''='' then ([], Some s) else (case cut_value s of (n, v) \<Rightarrow> (c # n, v)))"

text \<open>Sets the flag \<open>name\<close>; a flag that is not boolean may take its value from the next argument.\<close>

definition set_flag :: "'f Flag list \<Rightarrow> 'f \<Rightarrow> string \<Rightarrow> string option \<Rightarrow> string list \<Rightarrow> 'f flag_step" where
  "set_flag fs f name value args =
     (case formal_flag fs name of
        None \<Rightarrow> if name = ''help'' \<or> name = ''h'' then ErrHelp else BadFlag (NotDefined name)
      | Some fl \<Rightarrow>
          if IsBoolFlag fl then
            (let v = (case value of Some v \<Rightarrow> v | None \<Rightarrow> ''true'') in
             case flagSet fl v f of Some f' \<Rightarrow> SetFlag f' args | None \<Rightarrow> BadFlag (InvalidValue name v))
          else
            (case (value, args) of
               (Some v, _) \<Rightarrow> (case flagSet fl v f of Some f' \<Rightarrow> SetFlag f' args | None \<Rightarrow> BadFlag (InvalidValue name v))
             | (None, v # args') \<Rightarrow> (case flagSet fl v f of Some f' \<Rightarrow> SetFlag f' args' | None \<Rightarrow> BadFlag (InvalidValue name v))
             | (None, []) \<Rightarrow> BadFlag (NeedsArgument name)))"

definition parseOne :: "'f Flag list \<Rightarrow> 'f \<Rightarrow> string list \<Rightarrow> 'f flag_step" where
  "parseOne fs f args =
     (case args of
        [] \<Rightarrow> NoMoreFlags []
      | s # rest \<Rightarrow>
          if length s < 2 \<or> hd s \<noteq> CHR ''-'' then NoMoreFlags args
          else if s = ''--'' then NoMoreFlags rest
          else
            let name = (if s ! 1 = CHR ''-'' then drop 2 s else drop 1 s) in
            if name = [] \<or> hd name = CHR ''-'' \<or> hd name = CHR ''='' then BadFlag (BadFlagSyntax s)
            else (case cut_value name of (n, v) \<Rightarrow> set_flag fs f n v rest))"

datatype 'f parsed = Parsed 'f "string list" | ParseHelp | ParseError flag_error

lemma parseOne_shorter: "parseOne fs f args = SetFlag f' args' \<Longrightarrow> length args' < length args"
  by (auto simp: parseOne_def set_flag_def Let_def split: list.splits if_splits option.splits prod.splits)

function flag_Parse :: "'f Flag list \<Rightarrow> 'f \<Rightarrow> string list \<Rightarrow> 'f parsed" where
  "flag_Parse fs f args =
     (case parseOne fs f args of
        NoMoreFlags rest \<Rightarrow> Parsed f rest
      | SetFlag f' args' \<Rightarrow> flag_Parse fs f' args'
      | ErrHelp \<Rightarrow> ParseHelp
      | BadFlag e \<Rightarrow> ParseError e)"
  by pat_completeness auto
termination
  by (relation "measure (\<lambda>(fs, f, args). length args)") (auto simp: parseOne_shorter)

declare flag_Parse.simps [simp del]

text \<open>The written form \<open>--name=value\<close> of a setting.\<close>

definition render_flag :: "string \<times> string \<Rightarrow> string" where
  "render_flag nv = ''--'' @ fst nv @ ''='' @ snd nv"

definition flag_name_ok :: "string \<Rightarrow> bool" where
  "flag_name_ok n \<longleftrightarrow> n \<noteq> [] \<and> hd n \<noteq> CHR ''-'' \<and> CHR ''='' \<notin> set n"

lemma cut_value_render: "CHR ''='' \<notin> set n \<Longrightarrow> cut_value (n @ ''='' @ v) = (n, Some v)"
  by (induction n) auto

lemma parseOne_render:
  assumes "flag_name_ok n" and "formal_flag fs n = Some fl" and "flagSet fl v f = Some f'"
  shows "parseOne fs f (render_flag (n, v) # args) = SetFlag f' args"
proof -
  have "hd (n @ ''='' @ v) \<noteq> CHR ''-''" "hd (n @ ''='' @ v) \<noteq> CHR ''=''"
    using assms(1) by (cases n; auto simp: flag_name_ok_def)+
  moreover have "cut_value (n @ ''='' @ v) = (n, Some v)" using assms(1) by (intro cut_value_render) (simp add: flag_name_ok_def)
  ultimately show ?thesis using assms by (simp add: parseOne_def render_flag_def set_flag_def)
qed

lemma formal_flagI: "distinct (map flagName fs) \<Longrightarrow> fl \<in> set fs \<Longrightarrow> formal_flag fs (flagName fl) = Some fl"
  by (induction fs) (auto simp: formal_flag_def)

text \<open>Settings are made in the order they are written.\<close>

fun apply_settings :: "'f Flag list \<Rightarrow> 'f \<Rightarrow> (string \<times> string) list \<Rightarrow> 'f option" where
  "apply_settings fs f [] = Some f"
| "apply_settings fs f ((n, v) # nvs) =
     (case formal_flag fs n of None \<Rightarrow> None
      | Some fl \<Rightarrow> (case flagSet fl v f of None \<Rightarrow> None | Some f' \<Rightarrow> apply_settings fs f' nvs))"

lemma flag_Parse_render:
  assumes "\<forall>(n, v) \<in> set nvs. flag_name_ok n" and "apply_settings fs f nvs = Some f'"
  shows "flag_Parse fs f (map render_flag nvs) = Parsed f' []"
  using assms
proof (induction fs f nvs rule: apply_settings.induct)
  case (1 fs f)
  then show ?case by (simp add: flag_Parse.simps parseOne_def)
next
  case (2 fs f n v nvs)
  from 2(3) obtain fl f1 where fl: "formal_flag fs n = Some fl" "flagSet fl v f = Some f1" "apply_settings fs f1 nvs = Some f'"
    by (auto split: option.splits)
  with 2(1) [OF fl(1,2)] 2(2) show ?case
    by (simp add: flag_Parse.simps [of fs f "_ # _"] parseOne_render)
qed

section \<open>Paths\<close>

text \<open>
  \<open>filepath.Clean\<close> on Unix: empty elements and \<open>.\<close> are dropped, \<open>..\<close> removes the element before it, if
  there is one that is not itself \<open>..\<close>, and is dropped at the root. The stack holds the elements so far,
  the last one first.
\<close>

definition clean_element :: "bool \<Rightarrow> string list \<Rightarrow> string \<Rightarrow> string list" where
  "clean_element rooted stack e =
     (if e = [] \<or> e = ''.'' then stack
      else if e = ''..'' then
        (case stack of
           x # xs \<Rightarrow> if x = ''..'' then e # stack else xs
         | [] \<Rightarrow> if rooted then [] else [e])
      else e # stack)"

definition strings_Join :: "string list \<Rightarrow> string \<Rightarrow> string" where
  "strings_Join xs sep = (case xs of [] \<Rightarrow> [] | x # ys \<Rightarrow> x @ concat (map (\<lambda>y. sep @ y) ys))"

definition filepath_Clean :: "string \<Rightarrow> string" where
  "filepath_Clean path =
     (let rooted = strings_HasPrefix path ''/'';
          body = strings_Join (rev (foldl (clean_element rooted) [] (strings_Split path ''/''))) ''/''
      in if rooted then ''/'' @ body else if body = [] then ''.'' else body)"

definition filepath_Join :: "string list \<Rightarrow> string" where
  "filepath_Join elems =
     (case dropWhile (\<lambda>e. e = []) elems of
        [] \<Rightarrow> []
      | es \<Rightarrow> filepath_Clean (strings_Join es ''/''))"

end
