(* ===== verification/Manager_Setup.thy ===== *)
theory Manager_Setup
  imports Reconciler Go_Flags Go_Memory
begin

text \<open>
  The start of the process: \<open>src/cmd/main.go\<close>, the registration of the types in \<open>src/api/v1alpha1\<close>
  (\<open>groupversion_info.go\<close> and the \<open>init\<close> of \<open>openstackloadbalancer_types.go\<close>) and \<open>SetupWithManager\<close>.
  The calls into controller-runtime are events, their answers are functions of the calls made so far,
  as in \<open>Environment\<close>. Log messages are left out.
\<close>

section \<open>The calls\<close>

type_synonym watcher = nat

text \<open>The closures that are collected in slices of type \<open>[]func(*tls.Config)\<close>.\<close>

datatype tls_option = DisableHTTP2 | GetCertificateOf watcher

type_synonym tls_memory = "tls_option option list heap"

text \<open>The fields of \<open>tls.Config\<close> they set.\<close>

record tls_config =
  NextProtos :: "string list"
  GetCertificate :: "watcher option"

fun apply_tls_option :: "tls_option \<Rightarrow> tls_config \<Rightarrow> tls_config" where
  "apply_tls_option DisableHTTP2 c = c\<lparr>NextProtos := [''http/1.1'']\<rparr>"
| "apply_tls_option (GetCertificateOf w) c = c\<lparr>GetCertificate := Some w\<rparr>"

text \<open>\<open>metricsserver.Options\<close>; the filter provider is the one for authentication and authorization, or nil.\<close>

record metrics_config =
  mc_BindAddress :: string
  mc_SecureServing :: bool
  mc_TLSOpts :: "slice option"
  mc_AuthFilter :: bool

text \<open>\<open>ctrl.Options\<close>; the webhook server is represented by the options it was created with.\<close>

record manager_options =
  mo_Metrics :: metrics_config
  mo_WebhookTLSOpts :: "slice option"
  mo_HealthProbeBindAddress :: string
  mo_LeaderElection :: bool
  mo_LeaderElectionID :: string

text \<open>What the builder of the controller is told.\<close>

record controller_spec =
  cs_For :: string
  cs_Watches :: string
  cs_MapFunc :: "Object \<Rightarrow> Request list io"
  cs_Predicate :: "Object \<Rightarrow> bool"
  cs_Name :: string
  cs_Reconcile :: "Request \<Rightarrow> (Result \<times> error option) io"

text \<open>
  \<open>SStart\<close> carries the TLS options of the webhook server and of the metrics server as the servers find
  them in their slices when they start.
\<close>

datatype setup_event =
    SRegister "string \<times> string" "string list"
  | SAddClientGoTypes "error option"
  | SAddToScheme "string \<times> string" "error option"
  | SCertWatcher string string "error + watcher"
  | SNewWebhookServer "slice option"
  | SGetConfig "error option"
  | SNewManager manager_options "error option"
  | SGetEventRecorderFor string
  | SComplete controller_spec "error option"
  | SAdd watcher "error option"
  | SAddHealthzCheck string "error option"
  | SAddReadyzCheck string "error option"
  | SStart manager_options "tls_option option list" "tls_option option list" "error option"

type_synonym setup_history = "setup_event list"

record setup_env =
  su_AddClientGoTypes :: "setup_history \<Rightarrow> error option"
  su_AddToScheme :: "setup_history \<Rightarrow> error option"
  su_CertWatcher :: "string \<Rightarrow> string \<Rightarrow> setup_history \<Rightarrow> error + watcher"
  su_GetConfig :: "setup_history \<Rightarrow> error option"
  su_NewManager :: "manager_options \<Rightarrow> setup_history \<Rightarrow> error option"
  su_Complete :: "controller_spec \<Rightarrow> setup_history \<Rightarrow> error option"
  su_Add :: "watcher \<Rightarrow> setup_history \<Rightarrow> error option"
  su_AddHealthzCheck :: "string \<Rightarrow> setup_history \<Rightarrow> error option"
  su_AddReadyzCheck :: "string \<Rightarrow> setup_history \<Rightarrow> error option"
  su_Start :: "manager_options \<Rightarrow> setup_history \<Rightarrow> error option"
  su_grow :: "nat \<Rightarrow> nat \<Rightarrow> nat"
  su_LibraryFlags :: "(string \<times> bool \<times> (string \<Rightarrow> bool)) list"

section \<open>Steps that end the process\<close>

text \<open>A step either goes on or ends the process with an exit status.\<close>

type_synonym 'a proc = "(setup_history, nat + 'a) state"

definition exit_bind :: "'a proc \<Rightarrow> ('a \<Rightarrow> 'b proc) \<Rightarrow> 'b proc" where
  "exit_bind m f = do { r \<leftarrow> m; case r of Inl c \<Rightarrow> ret (Inl c) | Inr a \<Rightarrow> f a }"

definition or_exit :: "nat \<Rightarrow> (setup_history, error option) state \<Rightarrow> unit proc" where
  "or_exit c m = do { err \<leftarrow> m; case err of None \<Rightarrow> ret (Inr ()) | Some _ \<Rightarrow> ret (Inl c) }"

section \<open>Registration of the types\<close>

definition GroupVersion :: "string \<times> string" where
  "GroupVersion = (''openstack.jacero.io'', ''v1alpha1'')"

definition register_types :: "unit proc" where
  "register_types =
     do { _ \<leftarrow> call (\<lambda>_. ()) (\<lambda>_. SRegister GroupVersion [''OpenStackLoadBalancer'', ''OpenStackLoadBalancerList'']);
          ret (Inr ()) }"

definition AddToScheme :: "setup_env \<Rightarrow> (setup_history, error option) state" where
  "AddToScheme S = call (su_AddToScheme S) (SAddToScheme GroupVersion)"

text \<open>\<open>utilruntime.Must\<close> panics; an uncaught panic ends the process with status 2.\<close>

definition main_init :: "setup_env \<Rightarrow> unit proc" where
  "main_init S =
     exit_bind (or_exit 2 (call (su_AddClientGoTypes S) SAddClientGoTypes)) (\<lambda>_.
     or_exit 2 (AddToScheme S))"

section \<open>Command line\<close>

record main_flags =
  metricsAddr :: string
  metricsCertPath :: string
  metricsCertName :: string
  metricsCertKey :: string
  webhookCertPath :: string
  webhookCertName :: string
  webhookCertKey :: string
  enableLeaderElection :: bool
  probeAddr :: string
  secureMetrics :: bool
  enableHTTP2 :: bool
  librarySettings :: "(string \<times> string) list"

definition default_flags :: main_flags where
  "default_flags = \<lparr>metricsAddr = ''0'', metricsCertPath = [], metricsCertName = ''tls.crt'', metricsCertKey = ''tls.key'',
     webhookCertPath = [], webhookCertName = ''tls.crt'', webhookCertKey = ''tls.key'', enableLeaderElection = False,
     probeAddr = '':8081'', secureMetrics = True, enableHTTP2 = False, librarySettings = []\<rparr>"

definition own_flags :: "main_flags Flag list" where
  "own_flags = [
     StringVar ''metrics-bind-address'' (\<lambda>v f. f\<lparr>metricsAddr := v\<rparr>),
     StringVar ''health-probe-bind-address'' (\<lambda>v f. f\<lparr>probeAddr := v\<rparr>),
     BoolVar ''leader-elect'' (\<lambda>b f. f\<lparr>enableLeaderElection := b\<rparr>),
     BoolVar ''metrics-secure'' (\<lambda>b f. f\<lparr>secureMetrics := b\<rparr>),
     StringVar ''webhook-cert-path'' (\<lambda>v f. f\<lparr>webhookCertPath := v\<rparr>),
     StringVar ''webhook-cert-name'' (\<lambda>v f. f\<lparr>webhookCertName := v\<rparr>),
     StringVar ''webhook-cert-key'' (\<lambda>v f. f\<lparr>webhookCertKey := v\<rparr>),
     StringVar ''metrics-cert-path'' (\<lambda>v f. f\<lparr>metricsCertPath := v\<rparr>),
     StringVar ''metrics-cert-name'' (\<lambda>v f. f\<lparr>metricsCertName := v\<rparr>),
     StringVar ''metrics-cert-key'' (\<lambda>v f. f\<lparr>metricsCertKey := v\<rparr>),
     BoolVar ''enable-http2'' (\<lambda>b f. f\<lparr>enableHTTP2 := b\<rparr>)]"

text \<open>
  The flags that libraries define (zap's \<open>BindFlags\<close> among them) are parameters: the name, whether the
  flag is boolean, and which values it accepts.
\<close>

definition library_flag :: "string \<times> bool \<times> (string \<Rightarrow> bool) \<Rightarrow> main_flags Flag" where
  "library_flag d = (case d of (n, b, ok) \<Rightarrow> \<lparr>flagName = n, IsBoolFlag = b,
     flagSet = (\<lambda>v f. if ok v then Some (f\<lparr>librarySettings := librarySettings f @ [(n, v)]\<rparr>) else None)\<rparr>)"

definition all_flags :: "setup_env \<Rightarrow> main_flags Flag list" where
  "all_flags S = own_flags @ map library_flag (su_LibraryFlags S)"

text \<open>Defining a flag twice, or with a name that cannot be written, panics.\<close>

definition flags_ok :: "main_flags Flag list \<Rightarrow> bool" where
  "flags_ok fs \<longleftrightarrow> distinct (map flagName fs)
     \<and> list_all (\<lambda>n. \<not> strings_HasPrefix n ''-'' \<and> \<not> strings_Contains n ''='') (map flagName fs)"

text \<open>\<open>flag.Parse\<close> on \<open>flag.CommandLine\<close>: exit status 0 after the help text, 2 after an error.\<close>

definition parse_flags :: "setup_env \<Rightarrow> string list \<Rightarrow> main_flags proc" where
  "parse_flags S args =
     (if \<not> flags_ok (all_flags S) then ret (Inl 2)
      else case flag_Parse (all_flags S) default_flags args of
             Parsed f _ \<Rightarrow> ret (Inr f)
           | ParseHelp \<Rightarrow> ret (Inl 0)
           | ParseError _ \<Rightarrow> ret (Inl 2))"

section \<open>TLS options\<close>

text \<open>The initial options: \<open>tlsOpts\<close> stays nil if HTTP/2 is enabled.\<close>

definition initial_tlsOpts :: "setup_env \<Rightarrow> main_flags \<Rightarrow> tls_memory \<times> slice option" where
  "initial_tlsOpts S f =
     (if \<not> enableHTTP2 f then
        (let (h, s) = append_slice (su_grow S) empty_heap None DisableHTTP2 in (h, Some s))
      else (empty_heap, None))"

text \<open>
  A certificate watcher, if a directory is given, and the option that makes a server use it, appended
  to the slice \<open>s\<close>.
\<close>

definition cert_option ::
  "setup_env \<Rightarrow> string \<Rightarrow> string \<Rightarrow> string \<Rightarrow> tls_memory \<Rightarrow> slice option
     \<Rightarrow> (tls_memory \<times> slice option \<times> watcher option) proc" where
  "cert_option S path name key h s =
     (if path \<noteq> [] then do {
        r \<leftarrow> call (su_CertWatcher S (filepath_Join [path, name]) (filepath_Join [path, key]))
               (SCertWatcher (filepath_Join [path, name]) (filepath_Join [path, key]));
        case r of
          Inl _ \<Rightarrow> ret (Inl 1)
        | Inr w \<Rightarrow> (let (h', s') = append_slice (su_grow S) h s (GetCertificateOf w) in ret (Inr (h', Some s', Some w)))
      }
      else ret (Inr (h, s, None)))"

text \<open>The webhook server; its options start as a copy of the slice \<open>tlsOpts\<close>, not of its array.\<close>

definition webhook_server ::
  "setup_env \<Rightarrow> main_flags \<Rightarrow> tls_memory \<Rightarrow> slice option \<Rightarrow> (tls_memory \<times> slice option \<times> watcher option) proc" where
  "webhook_server S f h tlsOpts =
     (let webhookTLSOpts = tlsOpts in
      exit_bind (cert_option S (webhookCertPath f) (webhookCertName f) (webhookCertKey f) h webhookTLSOpts)
        (\<lambda>(h1, webhookTLSOpts, webhookCertWatcher). do {
           _ \<leftarrow> call (\<lambda>_. ()) (\<lambda>_. SNewWebhookServer webhookTLSOpts);
           ret (Inr (h1, webhookTLSOpts, webhookCertWatcher))
         }))"

definition metrics_options ::
  "setup_env \<Rightarrow> main_flags \<Rightarrow> tls_memory \<Rightarrow> slice option \<Rightarrow> (tls_memory \<times> metrics_config \<times> watcher option) proc" where
  "metrics_options S f h tlsOpts =
     (let opts = \<lparr>mc_BindAddress = metricsAddr f, mc_SecureServing = secureMetrics f, mc_TLSOpts = tlsOpts, mc_AuthFilter = False\<rparr>;
          opts' = (if secureMetrics f then opts\<lparr>mc_AuthFilter := True\<rparr> else opts)
      in exit_bind (cert_option S (metricsCertPath f) (metricsCertName f) (metricsCertKey f) h (mc_TLSOpts opts'))
           (\<lambda>(h', s, metricsCertWatcher). ret (Inr (h', opts'\<lparr>mc_TLSOpts := s\<rparr>, metricsCertWatcher))))"

section \<open>The manager\<close>

definition manager_config :: "main_flags \<Rightarrow> slice option \<Rightarrow> metrics_config \<Rightarrow> manager_options" where
  "manager_config f webhookTLSOpts mc = \<lparr>mo_Metrics = mc, mo_WebhookTLSOpts = webhookTLSOpts,
     mo_HealthProbeBindAddress = probeAddr f, mo_LeaderElection = enableLeaderElection f,
     mo_LeaderElectionID = ''863d1c9c.jacero.io''\<rparr>"

text \<open>\<open>GetConfigOrDie\<close> exits with status 1 when there is no configuration.\<close>

definition new_manager :: "setup_env \<Rightarrow> manager_options \<Rightarrow> unit proc" where
  "new_manager S mo =
     exit_bind (or_exit 1 (call (su_GetConfig S) SGetConfig)) (\<lambda>_.
     or_exit 1 (call (su_NewManager S mo) (SNewManager mo)))"

definition controller :: "env \<Rightarrow> controller_spec" where
  "controller E = \<lparr>cs_For = ''OpenStackLoadBalancer'', cs_Watches = ''Service'',
     cs_MapFunc = findOpenStackLBsForService E, cs_Predicate = servicePredicate E,
     cs_Name = ''openstackloadbalancer'', cs_Reconcile = Reconcile E\<rparr>"

definition SetupWithManager :: "setup_env \<Rightarrow> env \<Rightarrow> (setup_history, error option) state" where
  "SetupWithManager S E = do {
     _ \<leftarrow> call (\<lambda>_. ()) (\<lambda>_. SGetEventRecorderFor ''openstackloadbalancer-controller'');
     call (su_Complete S (controller E)) (SComplete (controller E))
   }"

definition add_watcher :: "setup_env \<Rightarrow> watcher option \<Rightarrow> unit proc" where
  "add_watcher S w = (case w of None \<Rightarrow> ret (Inr ()) | Some i \<Rightarrow> or_exit 1 (call (su_Add S i) (SAdd i)))"

definition add_checks :: "setup_env \<Rightarrow> unit proc" where
  "add_checks S =
     exit_bind (or_exit 1 (call (su_AddHealthzCheck S ''healthz'') (SAddHealthzCheck ''healthz''))) (\<lambda>_.
     or_exit 1 (call (su_AddReadyzCheck S ''readyz'') (SAddReadyzCheck ''readyz'')))"

definition start_manager :: "setup_env \<Rightarrow> tls_memory \<Rightarrow> manager_options \<Rightarrow> unit proc" where
  "start_manager S h mo =
     or_exit 1 (call (su_Start S mo)
       (SStart mo (elements h (mo_WebhookTLSOpts mo)) (elements h (mc_TLSOpts (mo_Metrics mo)))))"

text \<open>\<open>main\<close> once the flags are known: the servers, the manager, the controller, and the start.\<close>

definition run_manager :: "setup_env \<Rightarrow> env \<Rightarrow> main_flags \<Rightarrow> tls_memory \<Rightarrow> slice option \<Rightarrow> unit proc" where
  "run_manager S E f h tlsOpts =
     exit_bind (webhook_server S f h tlsOpts) (\<lambda>(h1, webhookTLSOpts, webhookCertWatcher).
     exit_bind (metrics_options S f h1 tlsOpts) (\<lambda>(h2, metricsServerOptions, metricsCertWatcher).
     let mo = manager_config f webhookTLSOpts metricsServerOptions in
     exit_bind (new_manager S mo) (\<lambda>_.
     exit_bind (or_exit 1 (SetupWithManager S E)) (\<lambda>_.
     exit_bind (add_watcher S metricsCertWatcher) (\<lambda>_.
     exit_bind (add_watcher S webhookCertWatcher) (\<lambda>_.
     exit_bind (add_checks S) (\<lambda>_.
     start_manager S h2 mo)))))))"

definition main :: "setup_env \<Rightarrow> env \<Rightarrow> string list \<Rightarrow> unit proc" where
  "main S E args =
     exit_bind (parse_flags S args) (\<lambda>f.
     case initial_tlsOpts S f of (h, tlsOpts) \<Rightarrow> run_manager S E f h tlsOpts)"

text \<open>The process: the package \<open>v1alpha1\<close> is initialised before \<open>main\<close>.\<close>

definition process :: "setup_env \<Rightarrow> env \<Rightarrow> string list \<Rightarrow> unit proc" where
  "process S E args =
     exit_bind register_types (\<lambda>_. exit_bind (main_init S) (\<lambda>_. main S E args))"

section \<open>Failures\<close>

text \<open>The error a call returned, and the status the process then exits with.\<close>

fun setup_error :: "setup_event \<Rightarrow> error option" where
  "setup_error (SAddClientGoTypes e) = e"
| "setup_error (SAddToScheme _ e) = e"
| "setup_error (SCertWatcher _ _ r) = (case r of Inl e \<Rightarrow> Some e | Inr _ \<Rightarrow> None)"
| "setup_error (SGetConfig e) = e"
| "setup_error (SNewManager _ e) = e"
| "setup_error (SComplete _ e) = e"
| "setup_error (SAdd _ e) = e"
| "setup_error (SAddHealthzCheck _ e) = e"
| "setup_error (SAddReadyzCheck _ e) = e"
| "setup_error (SStart _ _ _ e) = e"
| "setup_error _ = None"

fun failure_status :: "setup_event \<Rightarrow> nat" where
  "failure_status (SAddClientGoTypes e) = 2"
| "failure_status (SAddToScheme _ e) = 2"
| "failure_status _ = 1"

fun is_start :: "setup_event \<Rightarrow> bool" where
  "is_start (SStart _ _ _ _) = True"
| "is_start _ = False"

definition quiet :: "setup_event \<Rightarrow> bool" where
  "quiet e \<longleftrightarrow> setup_error e = None \<and> \<not> is_start e"

text \<open>
  The process ended before the manager was started: a call failed, or, if \<open>B\<close> holds, the command line
  was wrong or a request for help.
\<close>

definition dies :: "bool \<Rightarrow> nat \<Rightarrow> setup_history \<Rightarrow> bool" where
  "dies B c ev \<longleftrightarrow> (B \<and> c \<in> {0, 2} \<and> list_all quiet ev)
     \<or> (\<exists>pre e. ev = pre @ [e] \<and> list_all quiet pre \<and> setup_error e \<noteq> None \<and> \<not> is_start e \<and> c = failure_status e)"

text \<open>A part of the setup: it goes on with \<open>N\<close>, or the process ends.\<close>

definition stage :: "bool \<Rightarrow> 'a proc \<Rightarrow> ('a \<Rightarrow> setup_history \<Rightarrow> bool) \<Rightarrow> bool" where
  "stage B m N \<longleftrightarrow> emits m (\<lambda>r ev. case r of Inl c \<Rightarrow> dies B c ev | Inr a \<Rightarrow> list_all quiet ev \<and> N a ev)"

lemma dies_append: "list_all quiet e1 \<Longrightarrow> dies B c e2 \<Longrightarrow> dies B c (e1 @ e2)"
  by (auto simp: dies_def)

lemma stage_then:
  assumes "stage B m N" and "\<And>c e1. dies B c e1 \<Longrightarrow> Q (Inl c) e1"
    and "\<And>a e1. list_all quiet e1 \<Longrightarrow> N a e1 \<Longrightarrow> emits (f a) (\<lambda>r e2. Q r (e1 @ e2))"
  shows "emits (exit_bind m f) Q"
  unfolding exit_bind_def
  by (rule emits_bind_weaken [OF assms(1) [unfolded stage_def]])
    (auto split: sum.splits intro!: emits_return simp: assms(2,3))

lemma stage_bind:
  assumes "stage B m N" and "\<And>a e1. N a e1 \<Longrightarrow> stage B (f a) (\<lambda>b e2. M b (e1 @ e2))"
  shows "stage B (exit_bind m f) M"
  unfolding stage_def
proof (rule stage_then [OF assms(1)])
  fix a e1 assume q: "list_all quiet e1" and "N a e1"
  then have s: "stage B (f a) (\<lambda>b e2. M b (e1 @ e2))" by (intro assms(2))
  show "emits (f a) (\<lambda>r e2. case r of Inl c \<Rightarrow> dies B c (e1 @ e2)
      | Inr b \<Rightarrow> list_all quiet (e1 @ e2) \<and> M b (e1 @ e2))"
    by (rule emits_weaken [OF s [unfolded stage_def]]) (use q in \<open>auto split: sum.splits intro: dies_append\<close>)
qed simp

lemma stage_weaken: "stage B m N \<Longrightarrow> (\<And>a ev. N a ev \<Longrightarrow> M a ev) \<Longrightarrow> stage B m M"
  unfolding stage_def by (elim emits_weaken) (auto split: sum.splits)

lemma stage_return: "N a [] \<Longrightarrow> stage B (ret (Inr a)) N"
  by (simp add: stage_def emits_return)

lemma stage_call:
  assumes "\<And>e. setup_error (ev e) = e" and "\<And>e. \<not> is_start (ev e)" and "\<And>e. failure_status (ev e) = c" and "N () [ev None]"
  shows "stage B (or_exit c (call g ev)) N"
  unfolding stage_def or_exit_def
  by (rule emits_bind, rule emits_call)
    (auto simp: assms dies_def quiet_def intro!: emits_return split: option.split)

section \<open>The stages\<close>

definition cert_events :: "string \<Rightarrow> string \<Rightarrow> string \<Rightarrow> watcher option \<Rightarrow> setup_history" where
  "cert_events path name key w =
     (case w of None \<Rightarrow> [] | Some i \<Rightarrow> [SCertWatcher (filepath_Join [path, name]) (filepath_Join [path, key]) (Inr i)])"

definition add_events :: "watcher option \<Rightarrow> setup_history" where
  "add_events w = (case w of None \<Rightarrow> [] | Some i \<Rightarrow> [SAdd i None])"

text \<open>The slice after the option of the watcher, if there is one, was appended.\<close>

definition with_cert :: "setup_env \<Rightarrow> tls_memory \<Rightarrow> slice option \<Rightarrow> watcher option \<Rightarrow> tls_memory \<times> slice option" where
  "with_cert S h s w = (case w of None \<Rightarrow> (h, s)
     | Some i \<Rightarrow> (case append_slice (su_grow S) h s (GetCertificateOf i) of (h', s') \<Rightarrow> (h', Some s')))"

lemma stage_register:
  "stage B register_types (\<lambda>_ ev. ev = [SRegister GroupVersion [''OpenStackLoadBalancer'', ''OpenStackLoadBalancerList'']])"
  unfolding register_types_def stage_def
  by (rule emits_bind, rule emits_call) (simp add: emits_return quiet_def)

lemma stage_init:
  "stage B (main_init S) (\<lambda>_ ev. ev = [SAddClientGoTypes None, SAddToScheme GroupVersion None])"
  unfolding main_init_def AddToScheme_def
  by (rule stage_bind [where N = "\<lambda>_ ev. ev = [SAddClientGoTypes None]"]) (rule stage_call; simp)+

text \<open>Help was asked for, the arguments were wrong, or the flag definitions clash.\<close>

definition bad_command_line :: "setup_env \<Rightarrow> string list \<Rightarrow> bool" where
  "bad_command_line S args \<longleftrightarrow> \<not> flags_ok (all_flags S)
     \<or> (\<forall>f rest. flag_Parse (all_flags S) default_flags args \<noteq> Parsed f rest)"

lemma stage_parse_flags:
  "stage (bad_command_line S args) (parse_flags S args)
     (\<lambda>f ev. ev = [] \<and> \<not> bad_command_line S args \<and> (\<exists>rest. flag_Parse (all_flags S) default_flags args = Parsed f rest))"
  unfolding parse_flags_def stage_def
  by (auto simp: dies_def bad_command_line_def split: parsed.split intro!: emits_return)

lemma stage_cert_option:
  "stage B (cert_option S path name key h s)
     (\<lambda>(h', s', w) ev. (w = None \<longleftrightarrow> path = []) \<and> (h', s') = with_cert S h s w \<and> ev = cert_events path name key w)"
proof (cases "path = []")
  case True
  then show ?thesis by (simp add: cert_option_def with_cert_def cert_events_def stage_return)
next
  case False
  then show ?thesis
    unfolding cert_option_def stage_def
    by simp (rule emits_bind, rule emits_call,
      auto simp: dies_def quiet_def with_cert_def cert_events_def split: sum.split prod.split intro!: emits_return)
qed

lemma stage_webhook_server:
  "stage B (webhook_server S f h s)
     (\<lambda>(h', s', w) ev. (w = None \<longleftrightarrow> webhookCertPath f = []) \<and> (h', s') = with_cert S h s w
        \<and> ev = cert_events (webhookCertPath f) (webhookCertName f) (webhookCertKey f) w @ [SNewWebhookServer s'])"
  unfolding webhook_server_def Let_def
  by (rule stage_bind [OF stage_cert_option])
    (auto simp: stage_def quiet_def intro!: emits_bind emits_call emits_return)

text \<open>Metrics are protected by the filter exactly when they are served securely.\<close>

definition metrics_of :: "main_flags \<Rightarrow> slice option \<Rightarrow> metrics_config" where
  "metrics_of f s = \<lparr>mc_BindAddress = metricsAddr f, mc_SecureServing = secureMetrics f, mc_TLSOpts = s, mc_AuthFilter = secureMetrics f\<rparr>"

lemma stage_metrics_options:
  "stage B (metrics_options S f h s)
     (\<lambda>(h', mc, w) ev. (w = None \<longleftrightarrow> metricsCertPath f = []) \<and> (\<exists>s'. mc = metrics_of f s' \<and> (h', s') = with_cert S h s w)
        \<and> ev = cert_events (metricsCertPath f) (metricsCertName f) (metricsCertKey f) w)"
  unfolding metrics_options_def Let_def
  by (rule stage_bind [OF stage_cert_option]) (auto simp: metrics_of_def intro!: stage_return)

lemma stage_new_manager: "stage B (new_manager S mo) (\<lambda>_ ev. ev = [SGetConfig None, SNewManager mo None])"
  unfolding new_manager_def
  by (rule stage_bind [where N = "\<lambda>_ ev. ev = [SGetConfig None]"]) (rule stage_call; simp)+

lemma stage_SetupWithManager:
  "stage B (or_exit 1 (SetupWithManager S E))
     (\<lambda>_ ev. ev = [SGetEventRecorderFor ''openstackloadbalancer-controller'', SComplete (controller E) None])"
proof -
  have *: "or_exit 1 (SetupWithManager S E) =
     exit_bind (do { _ \<leftarrow> call (\<lambda>_. ()) (\<lambda>_. SGetEventRecorderFor ''openstackloadbalancer-controller''); ret (Inr ()) })
       (\<lambda>_. or_exit 1 (call (su_Complete S (controller E)) (SComplete (controller E))))"
    by (simp add: or_exit_def exit_bind_def SetupWithManager_def)
  show ?thesis
    unfolding *
  proof (rule stage_bind)
    show "stage B (do { _ \<leftarrow> call (\<lambda>_. ()) (\<lambda>_. SGetEventRecorderFor ''openstackloadbalancer-controller''); ret (Inr ()) })
       (\<lambda>_ ev. ev = [SGetEventRecorderFor ''openstackloadbalancer-controller''])"
      unfolding stage_def by (rule emits_bind, rule emits_call) (simp add: quiet_def emits_return)
  qed (rule stage_call; simp)
qed

lemma stage_add_watcher: "stage B (add_watcher S w) (\<lambda>_ ev. ev = add_events w)"
  by (cases w) (auto simp: add_watcher_def add_events_def intro: stage_return stage_call)

lemma stage_add_checks:
  "stage B (add_checks S) (\<lambda>_ ev. ev = [SAddHealthzCheck ''healthz'' None, SAddReadyzCheck ''readyz'' None])"
  unfolding add_checks_def
  by (rule stage_bind [where N = "\<lambda>_ ev. ev = [SAddHealthzCheck ''healthz'' None]"]) (rule stage_call; simp)+

section \<open>The whole start\<close>

text \<open>A part of the setup that ends with the process or with \<open>N\<close>.\<close>

definition ends :: "bool \<Rightarrow> 'a proc \<Rightarrow> (nat + 'a \<Rightarrow> setup_history \<Rightarrow> bool) \<Rightarrow> bool" where
  "ends B m N \<longleftrightarrow> emits m (\<lambda>r ev. (\<exists>c. r = Inl c \<and> dies B c ev) \<or> N r ev)"

lemma ends_bind:
  assumes "stage B m M" and "\<And>a e1. list_all quiet e1 \<Longrightarrow> M a e1 \<Longrightarrow> ends B (f a) (\<lambda>r e2. N r (e1 @ e2))"
  shows "ends B (exit_bind m f) N"
  unfolding ends_def
proof (rule stage_then [OF assms(1)])
  fix a e1 assume q: "list_all quiet e1" and "M a e1"
  then have s: "ends B (f a) (\<lambda>r e2. N r (e1 @ e2))" by (intro assms(2))
  show "emits (f a) (\<lambda>r e2. (\<exists>c. r = Inl c \<and> dies B c (e1 @ e2)) \<or> N r (e1 @ e2))"
    by (rule emits_weaken [OF s [unfolded ends_def]]) (use q in \<open>auto intro: dies_append\<close>)
qed simp

text \<open>The calls before \<open>Start\<close>, with the flags \<open>f\<close>, the options \<open>mo\<close> and the watchers \<open>ww\<close> and \<open>mw\<close>.\<close>

definition registration_events :: setup_history where
  "registration_events =
     [SRegister GroupVersion [''OpenStackLoadBalancer'', ''OpenStackLoadBalancerList''],
      SAddClientGoTypes None, SAddToScheme GroupVersion None]"

definition manager_events :: "env \<Rightarrow> main_flags \<Rightarrow> manager_options \<Rightarrow> watcher option \<Rightarrow> watcher option \<Rightarrow> setup_history" where
  "manager_events E f mo ww mw =
     cert_events (webhookCertPath f) (webhookCertName f) (webhookCertKey f) ww
     @ [SNewWebhookServer (mo_WebhookTLSOpts mo)]
     @ cert_events (metricsCertPath f) (metricsCertName f) (metricsCertKey f) mw
     @ [SGetConfig None, SNewManager mo None, SGetEventRecorderFor ''openstackloadbalancer-controller'',
        SComplete (controller E) None]
     @ add_events mw @ add_events ww
     @ [SAddHealthzCheck ''healthz'' None, SAddReadyzCheck ''readyz'' None]"

definition manager_started ::
  "setup_env \<Rightarrow> env \<Rightarrow> main_flags \<Rightarrow> tls_memory \<Rightarrow> slice option \<Rightarrow> nat + unit \<Rightarrow> setup_history \<Rightarrow> bool" where
  "manager_started S E f h tlsOpts r ev \<longleftrightarrow>
     (\<exists>h1 ws ww h2 ms mw err.
        (h1, ws) = with_cert S h tlsOpts ww \<and> (ww = None \<longleftrightarrow> webhookCertPath f = [])
        \<and> (h2, ms) = with_cert S h1 tlsOpts mw \<and> (mw = None \<longleftrightarrow> metricsCertPath f = [])
        \<and> list_all quiet (manager_events E f (manager_config f ws (metrics_of f ms)) ww mw)
        \<and> ev = manager_events E f (manager_config f ws (metrics_of f ms)) ww mw
               @ [SStart (manager_config f ws (metrics_of f ms)) (elements h2 ws) (elements h2 ms) err]
        \<and> r = (case err of None \<Rightarrow> Inr () | Some _ \<Rightarrow> Inl 1))"

definition started :: "setup_env \<Rightarrow> env \<Rightarrow> string list \<Rightarrow> nat + unit \<Rightarrow> setup_history \<Rightarrow> bool" where
  "started S E args r ev \<longleftrightarrow>
     (\<exists>f rest h tlsOpts e. flag_Parse (all_flags S) default_flags args = Parsed f rest \<and> initial_tlsOpts S f = (h, tlsOpts)
        \<and> manager_started S E f h tlsOpts r e \<and> ev = registration_events @ e)"

lemma start_manager_emits:
  "emits (start_manager S h mo) (\<lambda>r ev. \<exists>err. r = (case err of None \<Rightarrow> Inr () | Some _ \<Rightarrow> Inl 1)
     \<and> ev = [SStart mo (elements h (mo_WebhookTLSOpts mo)) (elements h (mc_TLSOpts (mo_Metrics mo))) err])"
  unfolding start_manager_def or_exit_def
  by (rule emits_bind, rule emits_call) (auto split: option.split intro!: emits_return)

lemma run_manager_ends: "ends B (run_manager S E f h tlsOpts) (manager_started S E f h tlsOpts)"
  unfolding run_manager_def Let_def
  apply (rule ends_bind [OF stage_webhook_server], clarify)
  apply (rule ends_bind [OF stage_metrics_options], clarify)
  apply (rule ends_bind [OF stage_new_manager], rule ends_bind [OF stage_SetupWithManager],
    rule ends_bind [OF stage_add_watcher], rule ends_bind [OF stage_add_watcher], rule ends_bind [OF stage_add_checks])
  unfolding ends_def
  apply (rule emits_weaken [OF start_manager_emits], rule disjI2)
  apply (elim exE conjE)
  unfolding manager_started_def
  apply (rule exI)+
  apply (rule conjI, assumption)+
  apply (simp add: manager_events_def manager_config_def metrics_of_def)
  done

lemma process_ends: "ends (bad_command_line S args) (process S E args) (started S E args)"
  unfolding process_def main_def
proof (rule ends_bind [OF stage_register], rule ends_bind [OF stage_init], rule ends_bind [OF stage_parse_flags])
  fix u v :: unit and f and e1 e2 e3 :: setup_history
  assume e: "e1 = [SRegister GroupVersion [''OpenStackLoadBalancer'', ''OpenStackLoadBalancerList'']]"
    "e2 = [SAddClientGoTypes None, SAddToScheme GroupVersion None]"
    and f: "e3 = [] \<and> \<not> bad_command_line S args \<and> (\<exists>rest. flag_Parse (all_flags S) default_flags args = Parsed f rest)"
  obtain h tlsOpts where i: "initial_tlsOpts S f = (h, tlsOpts)" by fastforce
  have "ends (bad_command_line S args) (run_manager S E f h tlsOpts) (\<lambda>r e. started S E args r (e1 @ e2 @ e3 @ e))"
    unfolding ends_def
    by (rule emits_weaken [OF run_manager_ends [unfolded ends_def]])
      (use e f i in \<open>auto simp: started_def registration_events_def\<close>)
  then show "ends (bad_command_line S args) (case initial_tlsOpts S f of (h, tlsOpts) \<Rightarrow> run_manager S E f h tlsOpts)
    (\<lambda>r e. started S E args r (e1 @ e2 @ e3 @ e))" by (simp add: i)
qed

lemma quiet_not_started: "list_all quiet pre \<Longrightarrow> SStart mo w m err \<notin> set pre"
  by (induction pre) (auto simp: quiet_def)

lemma dies_not_started: "dies B c ev \<Longrightarrow> SStart mo w m err \<notin> set ev"
  using quiet_not_started by (auto simp: dies_def)

lemma quiet_no_error:
  assumes "list_all quiet pre" and "pre @ [x] = xs @ e # ys" and "setup_error e \<noteq> None"
  shows "ys = [] \<and> e = x"
proof (cases ys rule: rev_cases)
  case (snoc zs z)
  with assms(2) have "e \<in> set pre" by (auto simp flip: append_assoc append_Cons)
  with assms(1,3) show ?thesis by (auto simp: list_all_iff quiet_def)
qed (use assms(2) in auto)

lemma dies_failure:
  assumes "dies B c (pre @ e # post)" and "setup_error e \<noteq> None"
  shows "post = [] \<and> c = failure_status e"
proof -
  from assms(2) have "\<not> quiet e" by (simp add: quiet_def)
  with assms(1) obtain p x where x: "p @ [x] = pre @ e # post" "list_all quiet p" "c = failure_status x"
    by (auto simp: dies_def)
  from quiet_no_error [OF x(2,1) assms(2)] x(3) show ?thesis by simp
qed

lemma quiet_registration: "list_all quiet registration_events"
  by (simp add: registration_events_def quiet_def)

lemma process_run:
  assumes "run_state (process S E args) [] = (res, ev)"
  obtains c where "res = Inl c" and "dies (bad_command_line S args) c ev" | "started S E args res ev"
  using assms process_ends [of S args E, unfolded ends_def] by (elim emitsD) auto

lemma startedE:
  assumes "started S E args res ev"
  obtains f rest h tlsOpts h1 ws ww h2 ms mw err where
    "flag_Parse (all_flags S) default_flags args = Parsed f rest" "initial_tlsOpts S f = (h, tlsOpts)"
    "(h1, ws) = with_cert S h tlsOpts ww" "ww = None \<longleftrightarrow> webhookCertPath f = []"
    "(h2, ms) = with_cert S h1 tlsOpts mw" "mw = None \<longleftrightarrow> metricsCertPath f = []"
    "list_all quiet (manager_events E f (manager_config f ws (metrics_of f ms)) ww mw)"
    "ev = registration_events @ manager_events E f (manager_config f ws (metrics_of f ms)) ww mw
       @ [SStart (manager_config f ws (metrics_of f ms)) (elements h2 ws) (elements h2 ms) err]"
    "res = (case err of None \<Rightarrow> Inr () | Some _ \<Rightarrow> Inl 1)"
  using assms unfolding started_def manager_started_def by blast

section \<open>Shared arrays\<close>

text \<open>
  The options a server should have: HTTP/2 disabled unless enabled by the flag, and the certificates of
  its own watcher.
\<close>

definition server_options :: "main_flags \<Rightarrow> watcher option \<Rightarrow> tls_option option list" where
  "server_options f w = (if enableHTTP2 f then [] else [Some DisableHTTP2])
     @ (case w of None \<Rightarrow> [] | Some i \<Rightarrow> [Some (GetCertificateOf i)])"

text \<open>
  If the array of \<open>tlsOpts\<close> has room, both servers' options are written to the same element of it, the
  metrics server's last.
\<close>

definition certificate_overwritten :: "setup_env \<Rightarrow> main_flags \<Rightarrow> watcher option \<Rightarrow> watcher option \<Rightarrow> bool" where
  "certificate_overwritten S f ww mw \<longleftrightarrow> \<not> enableHTTP2 f \<and> 1 < su_grow S 0 1 \<and> ww \<noteq> None \<and> mw \<noteq> None"

lemma started_options:
  assumes "grow_spec (su_grow S)" and "initial_tlsOpts S f = (h, tlsOpts)"
    and "(h1, ws) = with_cert S h tlsOpts ww" and "(h2, ms) = with_cert S h1 tlsOpts mw"
  shows "elements h2 ms = server_options f mw"
    and "elements h2 ws = server_options f (if certificate_overwritten S f ww mw then mw else ww)"
proof -
  have g: "\<exists>k. su_grow S c (Suc n) = Suc (n + k)" for c n
  proof -
    have "Suc n \<le> su_grow S c (Suc n)" using assms(1) by (simp add: grow_spec_def)
    then obtain k where "su_grow S c (Suc n) = Suc n + k" using le_iff_add by blast
    then show ?thesis by auto
  qed
  from g [of 0 0] obtain n where n: "su_grow S 0 (Suc 0) = Suc n" by auto
  from g [of 1 1] obtain m where m: "su_grow S (Suc 0) (Suc (Suc 0)) = Suc (Suc m)" by auto
  have "elements h2 ms = server_options f mw \<and> elements h2 ws = server_options f (if certificate_overwritten S f ww mw then mw else ww)"
  proof (cases "enableHTTP2 f")
    case True
    with assms(2-4) n show ?thesis
      by (cases ww; cases mw)
        (auto simp: initial_tlsOpts_def with_cert_def append_slice_def alloc_def empty_heap_def elements_def server_options_def
          certificate_overwritten_def Let_def)
  next
    case False
    with assms(2) n have i: "h = snd (alloc (Some DisableHTTP2 # replicate n None) empty_heap)"
      "tlsOpts = Some \<lparr>s_arr = 0, s_len = 1, s_cap = Suc n\<rparr>"
      by (auto simp: initial_tlsOpts_def append_slice_def alloc_def empty_heap_def Let_def)
    show ?thesis
    proof (cases n)
      case 0
      with assms(3,4) i n m False show ?thesis
        by (cases ww; cases mw)
          (auto simp: with_cert_def append_slice_def alloc_def empty_heap_def elements_def server_options_def
            certificate_overwritten_def Let_def)
    next
      case (Suc k)
      with assms(3,4) i n m False show ?thesis
        by (cases ww; cases mw)
          (auto simp: with_cert_def append_slice_def alloc_def empty_heap_def elements_def server_options_def
            certificate_overwritten_def Let_def)
    qed
  qed
  then show "elements h2 ms = server_options f mw"
    and "elements h2 ws = server_options f (if certificate_overwritten S f ww mw then mw else ww)" by auto
qed

text \<open>The configuration a server ends up with.\<close>

definition server_config :: "tls_option option list \<Rightarrow> tls_config \<Rightarrow> tls_config" where
  "server_config opts c = fold (case_option id apply_tls_option) opts c"

lemma server_config_options:
  "server_config (server_options f w) c =
     c\<lparr>NextProtos := (if enableHTTP2 f then NextProtos c else [''http/1.1'']),
       GetCertificate := (case w of None \<Rightarrow> GetCertificate c | Some i \<Rightarrow> Some i)\<rparr>"
  by (simp add: server_config_def server_options_def split: option.split)

section \<open>Properties\<close>

text \<open>
  C29: the manager is started at most once, as the last call, and only after every other call of the
  start-up succeeded, in a fixed order: the types are registered, the certificate watchers of the flags
  created, the manager created with the options of the flags, the controller of the operator completed,
  the watchers added, and both checks added. The first call that fails is the last one, and the process
  exits with its status. If the command line is fine and no call fails, the manager is started.
\<close>

theorem process_start:
  assumes "run_state (process S E args) [] = (res, ev)"
  shows "(\<forall>mo w m err. SStart mo w m err \<in> set ev \<longrightarrow>
            (\<exists>f rest ws ms ww mw. flag_Parse (all_flags S) default_flags args = Parsed f rest
               \<and> mo = manager_config f ws (metrics_of f ms)
               \<and> (ww = None \<longleftrightarrow> webhookCertPath f = []) \<and> (mw = None \<longleftrightarrow> metricsCertPath f = [])
               \<and> ev = registration_events @ manager_events E f mo ww mw @ [SStart mo w m err]
               \<and> (\<forall>e \<in> set (registration_events @ manager_events E f mo ww mw). setup_error e = None)
               \<and> res = (if err = None then Inr () else Inl 1)))
     \<and> (\<forall>pre e post. ev = pre @ e # post \<and> setup_error e \<noteq> None \<longrightarrow> post = [] \<and> res = Inl (failure_status e))
     \<and> (\<not> bad_command_line S args \<and> (\<forall>e \<in> set ev. setup_error e = None) \<longrightarrow> (\<exists>mo w m. SStart mo w m None \<in> set ev))"
  using assms
proof (cases rule: process_run)
  case (1 c)
  have "post = [] \<and> res = Inl (failure_status e)" if "ev = pre @ e # post" "setup_error e \<noteq> None" for pre e post
    using dies_failure [of _ c pre e post] 1 that by simp
  moreover have "\<exists>e \<in> set ev. setup_error e \<noteq> None" if "\<not> bad_command_line S args"
    using 1(2) that by (auto simp: dies_def)
  ultimately show ?thesis using dies_not_started [OF 1(2)] by (intro conjI allI impI) (blast | simp)+
next
  case 2
  from 2 obtain f rest h tlsOpts h1 ws ww h2 ms mw err where s: "flag_Parse (all_flags S) default_flags args = Parsed f rest"
    "ww = None \<longleftrightarrow> webhookCertPath f = []" "mw = None \<longleftrightarrow> metricsCertPath f = []"
    and q: "list_all quiet (manager_events E f (manager_config f ws (metrics_of f ms)) ww mw)"
    and ev: "ev = registration_events @ manager_events E f (manager_config f ws (metrics_of f ms)) ww mw
               @ [SStart (manager_config f ws (metrics_of f ms)) (elements h2 ws) (elements h2 ms) err]"
    and r: "res = (case err of None \<Rightarrow> Inr () | Some _ \<Rightarrow> Inl 1)"
    by (rule startedE)
  let ?pre = "registration_events @ manager_events E f (manager_config f ws (metrics_of f ms)) ww mw"
  have q': "list_all quiet ?pre" using q quiet_registration by simp
  then have ok: "\<forall>e \<in> set ?pre. setup_error e = None" by (auto simp: list_all_iff quiet_def)
  have "post = [] \<and> res = Inl (failure_status e)" if "ev = pre @ e # post" "setup_error e \<noteq> None" for pre e post
  proof -
    have "?pre @ [SStart (manager_config f ws (metrics_of f ms)) (elements h2 ws) (elements h2 ms) err] = pre @ e # post"
      using that(1) by (simp add: ev)
    from quiet_no_error [OF q' this that(2)]
    have "post = []" "e = SStart (manager_config f ws (metrics_of f ms)) (elements h2 ws) (elements h2 ms) err" by auto
    with that(2) show ?thesis by (auto simp: r split: option.split)
  qed
  moreover have eq: "SStart mo w m er \<in> set ev \<Longrightarrow> mo = manager_config f ws (metrics_of f ms) \<and> w = elements h2 ws \<and> m = elements h2 ms \<and> er = err" for mo w m er
    using quiet_not_started [OF q'] by (auto simp: ev)
  moreover have "\<exists>f rest ws ms ww mw. flag_Parse (all_flags S) default_flags args = Parsed f rest
       \<and> mo = manager_config f ws (metrics_of f ms) \<and> (ww = None \<longleftrightarrow> webhookCertPath f = []) \<and> (mw = None \<longleftrightarrow> metricsCertPath f = [])
       \<and> ev = registration_events @ manager_events E f mo ww mw @ [SStart mo w m er]
       \<and> (\<forall>e \<in> set (registration_events @ manager_events E f mo ww mw). setup_error e = None)
       \<and> res = (if er = None then Inr () else Inl 1)" if "SStart mo w m er \<in> set ev" for mo w m er
    by (rule exI [of _ f], rule exI [of _ rest], rule exI [of _ ws], rule exI [of _ ms], rule exI [of _ ww], rule exI [of _ mw])
      (use eq [OF that] s ok r ev in \<open>simp split: option.split\<close>)
  moreover have "\<exists>mo w m. SStart mo w m None \<in> set ev" if "\<forall>e \<in> set ev. setup_error e = None"
    using that by (auto simp: ev)
  ultimately show ?thesis by blast
qed

text \<open>
  C30: the TLS configuration of the two servers. Each has HTTP/2 disabled unless the flag enables it.
  The metrics server uses the certificates of the watcher of the metrics flags. The webhook server uses
  those of the watcher of the webhook flags, but only because the first \<open>append\<close> to a nil slice
  allocates an array of exactly one element: the two slices of options share that array, and if it had
  room for more, the webhook server would serve the certificate of the metrics server.
\<close>

theorem servers_tls_configuration:
  assumes "run_state (process S E args) [] = (res, ev)" and "SStart mo w m err \<in> set ev" and "grow_spec (su_grow S)"
  shows "\<exists>f rest ww mw. flag_Parse (all_flags S) default_flags args = Parsed f rest
     \<and> (case ww of None \<Rightarrow> webhookCertPath f = []
        | Some i \<Rightarrow> SCertWatcher (filepath_Join [webhookCertPath f, webhookCertName f])
                      (filepath_Join [webhookCertPath f, webhookCertKey f]) (Inr i) \<in> set ev)
     \<and> (case mw of None \<Rightarrow> metricsCertPath f = []
        | Some i \<Rightarrow> SCertWatcher (filepath_Join [metricsCertPath f, metricsCertName f])
                      (filepath_Join [metricsCertPath f, metricsCertKey f]) (Inr i) \<in> set ev)
     \<and> (\<forall>c. NextProtos (server_config m c) = (if enableHTTP2 f then NextProtos c else [''http/1.1''])
            \<and> NextProtos (server_config w c) = NextProtos (server_config m c)
            \<and> GetCertificate (server_config m c) = (if mw = None then GetCertificate c else mw)
            \<and> GetCertificate (server_config w c) =
                (if ww = None then GetCertificate c
                 else if mw \<noteq> None \<and> \<not> enableHTTP2 f \<and> su_grow S 0 1 \<noteq> 1 then mw else ww))"
  using assms(1)
proof (cases rule: process_run)
  case (1 c)
  with assms(2) dies_not_started show ?thesis by blast
next
  case 2
  then obtain f rest h tlsOpts h1 ws ww h2 ms mw er where s: "flag_Parse (all_flags S) default_flags args = Parsed f rest"
    and i: "initial_tlsOpts S f = (h, tlsOpts)" "(h1, ws) = with_cert S h tlsOpts ww" "(h2, ms) = with_cert S h1 tlsOpts mw"
    and p: "ww = None \<longleftrightarrow> webhookCertPath f = []" "mw = None \<longleftrightarrow> metricsCertPath f = []"
    and q: "list_all quiet (manager_events E f (manager_config f ws (metrics_of f ms)) ww mw)"
    and ev: "ev = registration_events @ manager_events E f (manager_config f ws (metrics_of f ms)) ww mw
               @ [SStart (manager_config f ws (metrics_of f ms)) (elements h2 ws) (elements h2 ms) er]"
    by (rule startedE)
  from assms(2) quiet_not_started [OF q] quiet_not_started [OF quiet_registration]
  have wm: "w = elements h2 ws" "m = elements h2 ms" by (auto simp: ev)
  have g: "certificate_overwritten S f ww mw \<longleftrightarrow> ww \<noteq> None \<and> mw \<noteq> None \<and> \<not> enableHTTP2 f \<and> su_grow S 0 1 \<noteq> 1"
    using assms(3) by (auto simp: certificate_overwritten_def grow_spec_def) (metis One_nat_def Suc_lessI less_eq_Suc_le)
  show ?thesis
  proof (rule exI [of _ f], rule exI [of _ rest], rule exI [of _ ww], rule exI [of _ mw], intro conjI s)
    show "\<forall>c. NextProtos (server_config m c) = (if enableHTTP2 f then NextProtos c else [''http/1.1''])
            \<and> NextProtos (server_config w c) = NextProtos (server_config m c)
            \<and> GetCertificate (server_config m c) = (if mw = None then GetCertificate c else mw)
            \<and> GetCertificate (server_config w c) =
                (if ww = None then GetCertificate c
                 else if mw \<noteq> None \<and> \<not> enableHTTP2 f \<and> su_grow S 0 1 \<noteq> 1 then mw else ww)"
      unfolding wm started_options [OF assms(3) i] server_config_options g by (auto split: option.split)
  qed (use p in \<open>auto simp: ev manager_events_def cert_events_def split: option.split\<close>)
qed

section \<open>Written command lines\<close>

definition bool_string :: "bool \<Rightarrow> string" where
  "bool_string b = (if b then ''true'' else ''false'')"

definition own_settings :: "main_flags \<Rightarrow> (string \<times> string) list" where
  "own_settings f = [
     (''metrics-bind-address'', metricsAddr f), (''health-probe-bind-address'', probeAddr f),
     (''leader-elect'', bool_string (enableLeaderElection f)), (''metrics-secure'', bool_string (secureMetrics f)),
     (''webhook-cert-path'', webhookCertPath f), (''webhook-cert-name'', webhookCertName f), (''webhook-cert-key'', webhookCertKey f),
     (''metrics-cert-path'', metricsCertPath f), (''metrics-cert-name'', metricsCertName f), (''metrics-cert-key'', metricsCertKey f),
     (''enable-http2'', bool_string (enableHTTP2 f))]"

definition command_line :: "main_flags \<Rightarrow> string list" where
  "command_line f = map render_flag (own_settings f @ librarySettings f)"

definition library_setting_ok :: "setup_env \<Rightarrow> string \<times> string \<Rightarrow> bool" where
  "library_setting_ok S nv \<longleftrightarrow> fst nv \<noteq> [] \<and> list_ex (\<lambda>(n, b, ok). n = fst nv \<and> ok (snd nv)) (su_LibraryFlags S)"

lemma ParseBool_string [simp]: "ParseBool (bool_string b) = Some b"
  by (simp add: ParseBool_def bool_string_def)

lemma apply_settings_append:
  "apply_settings fs f (xs @ ys) = Option.bind (apply_settings fs f xs) (\<lambda>f'. apply_settings fs f' ys)"
  by (induction fs f xs rule: apply_settings.induct) (auto split: option.split)

lemma apply_own_settings:
  "apply_settings (all_flags S) default_flags (own_settings f) = Some (f\<lparr>librarySettings := []\<rparr>)"
  by (simp add: own_settings_def all_flags_def own_flags_def formal_flag_def StringVar_def BoolVar_def default_flags_def)

lemma library_flag_mem:
  assumes "(n, b, ok) \<in> set (su_LibraryFlags S)"
  shows "library_flag (n, b, ok) \<in> set (all_flags S)" and "flagName (library_flag (n, b, ok)) = n"
proof -
  have "library_flag (n, b, ok) \<in> library_flag ` set (su_LibraryFlags S)" using assms by (rule imageI)
  then show "library_flag (n, b, ok) \<in> set (all_flags S)" by (simp add: all_flags_def)
qed (simp add: library_flag_def)

lemma apply_library_settings:
  assumes "flags_ok (all_flags S)" and "list_all (library_setting_ok S) nvs"
  shows "apply_settings (all_flags S) f nvs = Some (f\<lparr>librarySettings := librarySettings f @ nvs\<rparr>)"
  using assms(2)
proof (induction nvs arbitrary: f)
  case (Cons nv nvs)
  obtain n v where nv: "nv = (n, v)" by fastforce
  with Cons.prems obtain b ok where l: "(n, b, ok) \<in> set (su_LibraryFlags S)" "ok v"
    by (auto simp: library_setting_ok_def list_ex_iff)
  have "formal_flag (all_flags S) n = Some (library_flag (n, b, ok))"
    using formal_flagI [OF _ library_flag_mem(1) [OF l(1)]] library_flag_mem(2) [OF l(1)] assms(1) by (simp add: flags_ok_def)
  with l(2) Cons nv show ?case by (simp add: library_flag_def)
qed simp

lemma strings_Contains_char: "strings_Contains n [c] \<longleftrightarrow> c \<in> set n"
  by (induction n) auto

lemma flags_ok_name:
  assumes "flags_ok fs" and "fl \<in> set fs" and "flagName fl \<noteq> []"
  shows "flag_name_ok (flagName fl)"
proof -
  from assms(1,2) have "\<not> strings_HasPrefix (flagName fl) ''-''" "\<not> strings_Contains (flagName fl) ''=''"
    by (auto simp: flags_ok_def list_all_iff)
  with assms(3) show ?thesis
    by (cases "flagName fl") (auto simp: flag_name_ok_def strings_HasPrefix_def strings_Contains_char simp del: strings_Contains.simps)
qed

text \<open>
  C31: every setting of the flags can be written on the command line: the arguments \<open>--name=value\<close> for
  all variables, and for settings of library flags, are parsed back to exactly these settings, whatever
  characters the values contain.
\<close>

theorem command_line_roundtrip:
  assumes "flags_ok (all_flags S)" and "list_all (library_setting_ok S) (librarySettings f)"
  shows "parse_flags S (command_line f) = ret (Inr f)"
proof -
  have "flag_name_ok n" if "(n, v) \<in> set (own_settings f)" for n v
    using that by (auto simp: own_settings_def flag_name_ok_def)
  moreover have "flag_name_ok n" if "(n, v) \<in> set (librarySettings f)" for n v
  proof -
    from that assms(2) obtain b ok where n: "n \<noteq> []" "(n, b, ok) \<in> set (su_LibraryFlags S)"
      by (auto simp: library_setting_ok_def list_ex_iff list_all_iff)
    from flags_ok_name [OF assms(1) library_flag_mem(1) [OF n(2)]] n(1) show ?thesis
      by (simp add: library_flag_mem(2) [OF n(2)])
  qed
  ultimately have "\<forall>(n, v) \<in> set (own_settings f @ librarySettings f). flag_name_ok n" by auto
  moreover have "apply_settings (all_flags S) default_flags (own_settings f @ librarySettings f) = Some f"
    by (simp add: apply_settings_append apply_own_settings apply_library_settings [OF assms])
  ultimately have "flag_Parse (all_flags S) default_flags (command_line f) = Parsed f []"
    unfolding command_line_def by (rule flag_Parse_render)
  with assms(1) show ?thesis by (simp add: parse_flags_def)
qed

section \<open>A start\<close>

text \<open>Libraries in which every call succeeds; \<open>append\<close> doubles the capacity if that is enough.\<close>

definition sample_setup :: setup_env where
  "sample_setup = \<lparr>su_AddClientGoTypes = (\<lambda>_. None), su_AddToScheme = (\<lambda>_. None),
     su_CertWatcher = (\<lambda>_ _ h. Inr (length h)), su_GetConfig = (\<lambda>_. None), su_NewManager = (\<lambda>_ _. None),
     su_Complete = (\<lambda>_ _. None), su_Add = (\<lambda>_ _. None), su_AddHealthzCheck = (\<lambda>_ _. None),
     su_AddReadyzCheck = (\<lambda>_ _. None), su_Start = (\<lambda>_ _. None), su_grow = (\<lambda>c n. max n (2 * c)),
     su_LibraryFlags = [(''kubeconfig'', False, \<lambda>_. True), (''zap-devel'', True, \<lambda>v. case ParseBool v of None \<Rightarrow> False | Some _ \<Rightarrow> True)]\<rparr>"

definition sample_args :: "string list" where
  "sample_args = [''--leader-elect'', ''--webhook-cert-path=/certs/'', ''-metrics-cert-path'', ''/m/../n'', ''--zap-devel=false'']"

definition sample_flags :: main_flags where
  "sample_flags = default_flags\<lparr>enableLeaderElection := True, webhookCertPath := ''/certs/'', metricsCertPath := ''/m/../n'',
     librarySettings := [(''zap-devel'', ''false'')]\<rparr>"

lemma sample_flags_ok: "flags_ok (all_flags sample_setup)"
  by (simp add: flags_ok_def all_flags_def own_flags_def sample_setup_def library_flag_def StringVar_def BoolVar_def
      strings_HasPrefix_def)

lemma sample_args_parsed: "flag_Parse (all_flags sample_setup) default_flags sample_args = Parsed sample_flags []"
  by (simp add: flag_Parse.simps parseOne_def set_flag_def formal_flag_def all_flags_def own_flags_def sample_setup_def
      library_flag_def StringVar_def BoolVar_def ParseBool_def sample_args_def sample_flags_def default_flags_def)

text \<open>The same libraries, but \<open>append\<close> always leaves room for one more element.\<close>

definition roomy_setup :: setup_env where
  "roomy_setup = sample_setup\<lparr>su_grow := (\<lambda>_ n. Suc n)\<rparr>"

lemma sample_paths:
  "filepath_Join [''/certs/'', ''tls.crt''] = ''/certs/tls.crt''" "filepath_Join [''/certs/'', ''tls.key''] = ''/certs/tls.key''"
  "filepath_Join [''/m/../n'', ''tls.crt''] = ''/n/tls.crt''" "filepath_Join [''/m/../n'', ''tls.key''] = ''/n/tls.key''"
  by code_simp+

lemma all_flags_roomy: "all_flags roomy_setup = all_flags sample_setup"
  by (simp add: all_flags_def roomy_setup_def)

lemma sample_parse_flags:
  "parse_flags sample_setup sample_args = ret (Inr sample_flags)" "parse_flags roomy_setup sample_args = ret (Inr sample_flags)"
  by (simp_all add: parse_flags_def all_flags_roomy sample_flags_ok sample_args_parsed)

text \<open>If no call can fail and the command line is fine, the manager is started.\<close>

definition all_succeed :: "setup_env \<Rightarrow> bool" where
  "all_succeed S \<longleftrightarrow> (\<forall>h. su_AddClientGoTypes S h = None \<and> su_AddToScheme S h = None \<and> su_GetConfig S h = None
     \<and> (\<forall>c k. \<exists>w. su_CertWatcher S c k h = Inr w) \<and> (\<forall>mo. su_NewManager S mo h = None \<and> su_Start S mo h = None)
     \<and> (\<forall>c. su_Complete S c h = None) \<and> (\<forall>w. su_Add S w h = None)
     \<and> (\<forall>n. su_AddHealthzCheck S n h = None \<and> su_AddReadyzCheck S n h = None))"

abbreviation no_error :: "setup_event \<Rightarrow> bool" where
  "no_error e \<equiv> setup_error e = None"

lemma emits_call_no_error: "(\<And>h. no_error (ev (f h))) \<Longrightarrow> emits (call f ev) (\<lambda>_. list_all no_error)"
  by (simp add: emits_def)

lemma all_succeed_no_error:
  assumes "all_succeed S"
  shows "emits (process S E args) (\<lambda>_. list_all no_error)"
proof -
  from assms have s: "su_AddClientGoTypes S h = None" "su_AddToScheme S h = None" "su_GetConfig S h = None"
    "su_NewManager S mo h = None" "su_Start S mo h = None" "su_Complete S cs h = None" "su_Add S w h = None"
    "su_AddHealthzCheck S n h = None" "su_AddReadyzCheck S n h = None" for h mo cs w n
    by (auto simp: all_succeed_def)
  have c: "no_error (SCertWatcher c k (su_CertWatcher S c k h))" for c k h
  proof -
    from assms obtain w where "su_CertWatcher S c k h = Inr w" unfolding all_succeed_def by blast
    then show ?thesis by simp
  qed
  have p: "emits (parse_flags S args) (\<lambda>_. list_all no_error)"
    by (auto simp: parse_flags_def split: parsed.split intro!: emits_return)
  show ?thesis
    unfolding process_def main_def run_manager_def register_types_def main_init_def AddToScheme_def exit_bind_def or_exit_def
      webhook_server_def metrics_options_def cert_option_def new_manager_def SetupWithManager_def
      add_watcher_def add_checks_def start_manager_def Let_def
    by (intro list_all_prop.safe_intros emits_call_no_error p) (simp_all add: s c [simplified])
qed

lemma successful_start:
  assumes "all_succeed S" and "parse_flags S args = ret (Inr f)"
  shows "\<exists>mo w m. fst (run_state (process S E args) []) = Inr ()
     \<and> SStart mo w m None \<in> set (snd (run_state (process S E args) []))"
proof -
  obtain res ev where r: "run_state (process S E args) [] = (res, ev)" by fastforce
  with all_succeed_no_error [OF assms(1), of E args] have ne: "list_all no_error ev"
    by (elim emitsD) auto
  from assms(2) have "fst (run_state (parse_flags S args) []) = Inr f" by simp
  then have good: "\<not> bad_command_line S args"
    by (auto simp: parse_flags_def bad_command_line_def split: if_splits parsed.splits)
  from r show ?thesis
  proof (cases rule: process_run)
    case (1 c)
    with ne good show ?thesis by (auto simp: dies_def)
  next
    case 2
    then obtain pre mo w m er where "ev = pre @ [SStart mo w m er]" "res = (case er of None \<Rightarrow> Inr () | Some _ \<Rightarrow> Inl 1)"
      by (elim startedE) (metis append.assoc)
    with ne show ?thesis by (auto simp: r)
  qed
qed

lemma sample_succeeds: "all_succeed sample_setup" "all_succeed roomy_setup"
  by (simp_all add: all_succeed_def sample_setup_def roomy_setup_def)

lemmas sample_process = successful_start [OF sample_succeeds(1) sample_parse_flags(1)]
lemmas roomy_process = successful_start [OF sample_succeeds(2) sample_parse_flags(2)]

lemma process_start_witness:
  "\<exists>mo w m ws ms ww mw. run_state (process sample_setup sample_env sample_args) []
       = (Inr (), registration_events @ manager_events sample_env sample_flags mo ww mw @ [SStart mo w m None])
     \<and> mo = manager_config sample_flags ws (metrics_of sample_flags ms) \<and> ww \<noteq> None \<and> mw \<noteq> None"
proof -
  from sample_process [of sample_env] obtain mo w m ev where r: "run_state (process sample_setup sample_env sample_args) [] = (Inr (), ev)"
    and st: "SStart mo w m None \<in> set ev" by (metis prod.collapse)
  from process_start [OF r] st obtain f rest ws ms ww mw where "flag_Parse (all_flags sample_setup) default_flags sample_args = Parsed f rest"
    "mo = manager_config f ws (metrics_of f ms)" "ww = None \<longleftrightarrow> webhookCertPath f = []" "mw = None \<longleftrightarrow> metricsCertPath f = []"
    "ev = registration_events @ manager_events sample_env f mo ww mw @ [SStart mo w m None]" by blast
  moreover from this have "f = sample_flags" by (simp add: sample_args_parsed)
  moreover have "webhookCertPath sample_flags \<noteq> []" "metricsCertPath sample_flags \<noteq> []" by (simp_all add: sample_flags_def)
  ultimately show ?thesis using r by blast
qed

lemma sample_grow: "grow_spec (su_grow sample_setup)" "grow_spec (su_grow roomy_setup)"
  "su_grow sample_setup 0 1 = 1" "su_grow roomy_setup 0 1 = 2"
  by (simp_all add: grow_spec_def sample_setup_def roomy_setup_def)

lemma servers_tls_configuration_witness:
  "(\<exists>mo w m ev i j. run_state (process sample_setup sample_env sample_args) [] = (Inr (), ev) \<and> SStart mo w m None \<in> set ev
     \<and> SCertWatcher ''/certs/tls.crt'' ''/certs/tls.key'' (Inr i) \<in> set ev
     \<and> SCertWatcher ''/n/tls.crt'' ''/n/tls.key'' (Inr j) \<in> set ev
     \<and> (\<forall>c. GetCertificate (server_config w c) = Some i \<and> GetCertificate (server_config m c) = Some j))
   \<and> (\<exists>mo w m ev i j. run_state (process roomy_setup sample_env sample_args) [] = (Inr (), ev) \<and> SStart mo w m None \<in> set ev
     \<and> SCertWatcher ''/certs/tls.crt'' ''/certs/tls.key'' (Inr i) \<in> set ev
     \<and> SCertWatcher ''/n/tls.crt'' ''/n/tls.key'' (Inr j) \<in> set ev
     \<and> (\<forall>c. GetCertificate (server_config w c) = Some j \<and> GetCertificate (server_config m c) = Some j))"
proof (rule conjI)
  from sample_process [of sample_env] obtain mo w m ev where r: "run_state (process sample_setup sample_env sample_args) [] = (Inr (), ev)"
    and st: "SStart mo w m None \<in> set ev" by (metis prod.collapse)
  from servers_tls_configuration [OF r st sample_grow(1)] obtain f rest ww mw where p: "Parsed sample_flags [] = Parsed f rest"
    and W: "case ww of None \<Rightarrow> webhookCertPath f = []
        | Some i \<Rightarrow> SCertWatcher (filepath_Join [webhookCertPath f, webhookCertName f])
                      (filepath_Join [webhookCertPath f, webhookCertKey f]) (Inr i) \<in> set ev"
    and M: "case mw of None \<Rightarrow> metricsCertPath f = []
        | Some i \<Rightarrow> SCertWatcher (filepath_Join [metricsCertPath f, metricsCertName f])
                      (filepath_Join [metricsCertPath f, metricsCertKey f]) (Inr i) \<in> set ev"
    and C: "\<And>c. GetCertificate (server_config m c) = (if mw = None then GetCertificate c else mw)
            \<and> GetCertificate (server_config w c) = (if ww = None then GetCertificate c
                 else if mw \<noteq> None \<and> \<not> enableHTTP2 f \<and> su_grow sample_setup 0 1 \<noteq> 1 then mw else ww)"
    unfolding sample_args_parsed by blast
  from p have f: "f = sample_flags" by simp
  from W M obtain i j where ij: "ww = Some i" "mw = Some j"
    "SCertWatcher ''/certs/tls.crt'' ''/certs/tls.key'' (Inr i) \<in> set ev" "SCertWatcher ''/n/tls.crt'' ''/n/tls.key'' (Inr j) \<in> set ev"
    by (auto simp: f sample_flags_def default_flags_def sample_paths split: option.splits)
  moreover from C ij(1,2) have "GetCertificate (server_config w c) = Some i \<and> GetCertificate (server_config m c) = Some j" for c
    by (simp add: f sample_flags_def default_flags_def sample_grow [simplified])
  ultimately show "\<exists>mo w m ev i j. run_state (process sample_setup sample_env sample_args) [] = (Inr (), ev) \<and> SStart mo w m None \<in> set ev
     \<and> SCertWatcher ''/certs/tls.crt'' ''/certs/tls.key'' (Inr i) \<in> set ev
     \<and> SCertWatcher ''/n/tls.crt'' ''/n/tls.key'' (Inr j) \<in> set ev
     \<and> (\<forall>c. GetCertificate (server_config w c) = Some i \<and> GetCertificate (server_config m c) = Some j)"
    using r st by blast
next
  from roomy_process [of sample_env] obtain mo w m ev where r: "run_state (process roomy_setup sample_env sample_args) [] = (Inr (), ev)"
    and st: "SStart mo w m None \<in> set ev" by (metis prod.collapse)
  from servers_tls_configuration [OF r st sample_grow(2)] obtain f rest ww mw where p: "Parsed sample_flags [] = Parsed f rest"
    and W: "case ww of None \<Rightarrow> webhookCertPath f = []
        | Some i \<Rightarrow> SCertWatcher (filepath_Join [webhookCertPath f, webhookCertName f])
                      (filepath_Join [webhookCertPath f, webhookCertKey f]) (Inr i) \<in> set ev"
    and M: "case mw of None \<Rightarrow> metricsCertPath f = []
        | Some i \<Rightarrow> SCertWatcher (filepath_Join [metricsCertPath f, metricsCertName f])
                      (filepath_Join [metricsCertPath f, metricsCertKey f]) (Inr i) \<in> set ev"
    and C: "\<And>c. GetCertificate (server_config m c) = (if mw = None then GetCertificate c else mw)
            \<and> GetCertificate (server_config w c) = (if ww = None then GetCertificate c
                 else if mw \<noteq> None \<and> \<not> enableHTTP2 f \<and> su_grow roomy_setup 0 1 \<noteq> 1 then mw else ww)"
    unfolding all_flags_roomy sample_args_parsed by blast
  from p have f: "f = sample_flags" by simp
  from W M obtain i j where ij: "ww = Some i" "mw = Some j"
    "SCertWatcher ''/certs/tls.crt'' ''/certs/tls.key'' (Inr i) \<in> set ev" "SCertWatcher ''/n/tls.crt'' ''/n/tls.key'' (Inr j) \<in> set ev"
    by (auto simp: f sample_flags_def default_flags_def sample_paths split: option.splits)
  moreover from C ij(1,2) have "GetCertificate (server_config w c) = Some j \<and> GetCertificate (server_config m c) = Some j" for c
    by (simp add: f sample_flags_def default_flags_def sample_grow [simplified])
  ultimately show "\<exists>mo w m ev i j. run_state (process roomy_setup sample_env sample_args) [] = (Inr (), ev) \<and> SStart mo w m None \<in> set ev
     \<and> SCertWatcher ''/certs/tls.crt'' ''/certs/tls.key'' (Inr i) \<in> set ev
     \<and> SCertWatcher ''/n/tls.crt'' ''/n/tls.key'' (Inr j) \<in> set ev
     \<and> (\<forall>c. GetCertificate (server_config w c) = Some j \<and> GetCertificate (server_config m c) = Some j)"
    using r st by blast
qed

lemma command_line_roundtrip_witness:
  "parse_flags sample_setup (command_line sample_flags) = ret (Inr sample_flags)"
proof (rule command_line_roundtrip [OF sample_flags_ok])
  show "list_all (library_setting_ok sample_setup) (librarySettings sample_flags)"
    by (simp add: sample_flags_def default_flags_def library_setting_ok_def sample_setup_def ParseBool_def)
qed

end
