(* ===== verification/Call_Bounds.thy ===== *)
theory Call_Bounds
  imports Reconciler
begin

text \<open>
  How long a pass of the reconciler can take: \<open>within k m\<close> says that \<open>m\<close> makes at most \<open>k\<close> calls to the
  outside world, whatever the answers are. The bounds of the loops depend on \<open>n\<close>, the length of the
  longest list the servers answer with; nothing else does, so that every pass ends, also when every
  retried call fails.
\<close>

named_theorems within_rules \<open>bounds for the control structures\<close>
named_theorems within_calls \<open>bounds for the functions\<close>

section \<open>Counting calls\<close>

definition within :: "nat \<Rightarrow> ('e list, 'a) state \<Rightarrow> bool" where
  "within k m \<longleftrightarrow> emits m (\<lambda>_ ev. length ev \<le> k)"

lemma within_return [within_rules]: "within k (ret a)"
  by (simp add: within_def emits_return)

lemma within_call: "within 1 (call f ev)"
  by (simp add: within_def emits_call)

lemma within_mono: "within k m \<Longrightarrow> k \<le> l \<Longrightarrow> within l m"
  unfolding within_def by (erule emits_weaken) simp

lemma within_bind_post:
  assumes "emits m (\<lambda>a ev. length ev \<le> k \<and> R a)" and "k \<le> l" and "\<And>a. R a \<Longrightarrow> within (l - k) (f a)"
  shows "within l (m \<bind> f)"
  unfolding within_def
proof (rule emits_bind_weaken [OF assms(1)])
  fix a and e1 :: "'a list" assume "length e1 \<le> k \<and> R a"
  with assms(2) show "emits (f a) (\<lambda>_ e2. length (e1 @ e2) \<le> l)"
    by (intro emits_weaken [OF assms(3) [unfolded within_def]]) auto
qed

lemma within_bind [within_rules]: "within k m \<Longrightarrow> k \<le> l \<Longrightarrow> (\<And>a. within (l - k) (f a)) \<Longrightarrow> within l (m \<bind> f)"
  by (rule within_bind_post [where R = "\<lambda>_. True"]) (simp_all add: within_def)

lemma within_if [within_rules]: "within k m \<Longrightarrow> within k m' \<Longrightarrow> within k (if b then m else m')"
  by simp

lemma within_case_option [within_rules]:
  "within k m \<Longrightarrow> (\<And>x. within k (f x)) \<Longrightarrow> within k (case opt of None \<Rightarrow> m | Some x \<Rightarrow> f x)"
  by (simp split: option.split)

lemma within_case_sum [within_rules]:
  "(\<And>x. within k (f x)) \<Longrightarrow> (\<And>x. within k (g x)) \<Longrightarrow> within k (case s of Inl x \<Rightarrow> f x | Inr x \<Rightarrow> g x)"
  by (simp split: sum.split)

lemma within_case_prod [within_rules]:
  "(\<And>x y. within k (f x y)) \<Longrightarrow> within k (case p of (x, y) \<Rightarrow> f x y)"
  by (simp split: prod.split)

lemma within_case_prod_app [within_rules]:
  "(\<And>x y. within k (f x y z)) \<Longrightarrow> within k ((case p of (x, y) \<Rightarrow> f x y) z)"
  by (simp split: prod.split)

lemma within_case_list [within_rules]:
  "within k m \<Longrightarrow> (\<And>x xs. within k (f x xs)) \<Longrightarrow> within k (case l of [] \<Rightarrow> m | x # xs \<Rightarrow> f x xs)"
  by (simp split: list.split)

lemma within_let [within_rules]: "within k (f a) \<Longrightarrow> within k (Let a f)"
  by simp

lemma within_foldM:
  assumes "\<And>acc x. within k (f acc x)" and "length xs * k \<le> l"
  shows "within l (foldM f acc xs)"
  using assms(2)
proof (induction xs arbitrary: acc l)
  case (Cons x xs)
  then show ?case by (auto intro!: within_bind [OF assms(1)])
qed (simp add: within_return)

lemma within_retry_steps:
  assumes "\<And>obj. within k (f obj)"
  shows "within (s * k) (retry_steps s f obj)"
proof (induction s arbitrary: obj)
  case (Suc s)
  then show ?case by (auto intro!: within_rules within_bind [OF assms])
qed (simp add: within_return)

lemma within_conflict_steps: "within k f \<Longrightarrow> within (Suc s * k) (conflict_steps conflict s f)"
proof (induction s)
  case (Suc s)
  then show ?case by (auto intro!: within_rules within_bind [OF Suc.prems])
qed simp

lemma within_primitive [within_calls]:
  "within 1 (GetLB E k)" "within 1 (GetSvc E k)" "within 1 (GetSecret E k)" "within 1 (Update E obj)"
  "within 1 (StatusUpdate E lb)" "within 1 (PatchSvc E svc patch)" "within 1 (Eventf svc reason msg)" "within 1 (Now E)"
  "within 1 (NewProvider E url)" "within 1 (Authenticate E pc ao)" "within 1 (NewNetworkV2 E pc region)"
  "within 1 (FipCreate E c fo)" "within 1 (FipGet E c i)" "within 1 (FipList E c i)" "within 1 (FipDelete E c i)"
  "within 1 (PortCreate E c po)" "within 1 (PortGet E c i)" "within 1 (PortList E c)" "within 1 (PortDelete E c i)"
  "within 1 (SubnetList E c)" "within 1 (TagsList E c rt i)" "within 1 (TagsReplaceAll E c rt i tags)"
  "within 1 (SystemCertPool E)" "within 1 (Stat E path)" "within 1 (ReadFile E path)"
  by (simp_all only: call_defs within_call)

section \<open>Retried updates\<close>

lemma within_backoff:
  assumes "backoff_spec (lib E)" and "\<And>obj. within 2 (f obj)"
  shows "within 10 (ExponentialBackoff (lib E) RetryBackoff f obj)"
  using within_retry_steps [of 2 f 5 obj] assms by (simp add: ExponentialBackoff_eq RetryBackoff_def)

lemma within_backoff_plain:
  assumes "backoff_spec (lib E)" and "within 2 m"
  shows "within 10 (backoff_plain E m svc)"
  unfolding backoff_plain_def
  by (rule within_bind [OF within_backoff [OF assms(1)]])
    (auto simp: plain_attempt_def intro!: within_rules within_bind [OF assms(2)])

lemma within_updates [within_calls]:
  assumes "retry_spec (lib E)"
  shows "within 10 (updateServiceAnnotationWithRetry E svc k v)"
    and "within 10 (updateMultipleServiceAnnotations E svc kvs)"
    and "within 10 (updateServiceExternalIPs E svc ip)"
    and "within 10 (updateStatusWithRetry E lb)"
    and "within 10 (updateResourceWithRetry E obj)"
proof -
  have b: "backoff_spec (lib E)" using assms ..
  show "within 10 (updateServiceAnnotationWithRetry E svc k v)"
    unfolding updateServiceAnnotationWithRetry_def updateServiceAnnotation_attempt_def
    by (rule within_backoff_plain [OF b], (rule within_rules within_calls | simp)+)
  show "within 10 (updateMultipleServiceAnnotations E svc kvs)"
    unfolding updateMultipleServiceAnnotations_def updateMultipleServiceAnnotations_attempt_def
    by (rule within_backoff_plain [OF b], (rule within_rules within_calls | simp)+)
  show "within 10 (updateServiceExternalIPs E svc ip)"
    unfolding updateServiceExternalIPs_def updateServiceExternalIPs_attempt_def
    by (rule within_backoff_plain [OF b], (rule within_rules within_calls | simp)+)
  have st: "within 2 (updateStatus_attempt E obj)" for obj
    by (cases obj; simp) (rule within_rules within_calls | simp)+
  show "within 10 (updateStatusWithRetry E lb)"
    unfolding updateStatusWithRetry_def by (rule within_bind [OF within_backoff [OF b st]] within_rules | simp)+
  have "within 1 (GetObj E obj)" for obj
    by (cases obj; simp) (rule within_rules within_calls | simp)+
  note get = within_bind [OF this]
  have res: "within 2 (updateResource_attempt E obj)" for obj
    unfolding updateResource_attempt_def by (rule get within_rules within_calls | simp)+
  show "within 10 (updateResourceWithRetry E obj)"
    unfolding updateResourceWithRetry_def by (rule within_bind [OF within_backoff [OF b res]] within_rules | simp)+
qed

section \<open>The OpenStack client\<close>

text \<open>The servers' lists, and the visits of the certificate directory, have at most \<open>n\<close> elements.\<close>

definition short :: "nat \<Rightarrow> 'e + 'a list \<Rightarrow> bool" where
  "short n r = (case r of Inl _ \<Rightarrow> True | Inr xs \<Rightarrow> length xs \<le> n)"

lemma short_simps [simp]: "short n (Inl e)" "short n (Inr xs) \<longleftrightarrow> length xs \<le> n"
  by (simp_all add: short_def)

definition lists_within :: "env \<Rightarrow> nat \<Rightarrow> bool" where
  "lists_within E n \<longleftrightarrow>
     (\<forall>h. short n (k8s_ListSvcs (k8s E) h) \<and> short n (k8s_ListLBs (k8s E) h))
     \<and> (\<forall>pages. short n (fip_Extract (gopher E) pages) \<and> short n (port_Extract (gopher E) pages))
     \<and> (\<forall>h path. length (os_WalkDir (sys E) h path) \<le> n)"

text \<open>What the controller relies on of a client.\<close>

definition bounded_client :: "nat \<Rightarrow> Client \<Rightarrow> bool" where
  "bounded_client n cl \<longleftrightarrow>
     (\<forall>ip. within 1 (Client_DetectNetworkForIP cl ip))
     \<and> emits (Client_GetAllFloatingIPs cl) (\<lambda>r ev. length ev \<le> 1 \<and> short n r)
     \<and> emits (Client_GetAllPorts cl) (\<lambda>r ev. length ev \<le> 1 \<and> short n r)
     \<and> (\<forall>i. within 1 (Client_GetFloatingIPDetails cl i))
     \<and> (\<forall>a b c d e f g. within 2 (Client_CreatePort cl a b c d e f g))
     \<and> (\<forall>i. within 1 (Client_GetPort cl i))
     \<and> (\<forall>i. within 3 (Client_DeletePort cl i))
     \<and> (\<forall>a b c d e. within 2 (Client_CreateFloatingIP cl a b c d e))
     \<and> (\<forall>i. within 1 (Client_GetFloatingIP cl i))
     \<and> (\<forall>i. within 3 (Client_DeleteFloatingIP cl i))
     \<and> (\<forall>i. within 1 (Client_GetFloatingIPByPortID cl i))"

lemma bounded_clientD [within_calls]:
  assumes "bounded_client n cl"
  shows "within 1 (Client_DetectNetworkForIP cl ip)" "within 1 (Client_GetFloatingIPDetails cl i)"
    "within 2 (Client_CreatePort cl a b c d e f g)" "within 1 (Client_GetPort cl i)" "within 3 (Client_DeletePort cl i)"
    "within 2 (Client_CreateFloatingIP cl a b c d e)" "within 1 (Client_GetFloatingIP cl i)"
    "within 3 (Client_DeleteFloatingIP cl i)" "within 1 (Client_GetFloatingIPByPortID cl i)"
  using assms by (simp_all add: bounded_client_def)

lemma within_deleteResource:
  assumes "\<And>i. within 1 (check c i)" and "\<And>i. within 1 (del i)"
  shows "within 3 (deleteResource E c rt i check del)"
  unfolding deleteResource_def by (rule assms within_rules within_calls | simp)+

lemma ClientImpl_bounded:
  assumes "lists_within E n"
  shows "bounded_client n (ClientImpl E c)"
proof -
  from assms have s: "fip_Extract (gopher E) pages = Inr fs \<Longrightarrow> length fs \<le> n"
    "port_Extract (gopher E) pages = Inr ps \<Longrightarrow> length ps \<le> n" for pages fs ps
    by (auto simp: lists_within_def dest!: spec [of _ pages])
  have "within 1 (DetectNetworkForIP E c ip)" for ip
    unfolding DetectNetworkForIP_def by (rule within_rules within_calls | simp)+
  moreover have "emits (GetAllFloatingIPs E c) (\<lambda>r ev. length ev \<le> 1 \<and> short n r)"
    unfolding GetAllFloatingIPs_def FipList_def
    by (rule emits_bind, rule emits_call) (use s in \<open>auto intro!: emits_return split: sum.split\<close>)
  moreover have "emits (GetAllPorts E c) (\<lambda>r ev. length ev \<le> 1 \<and> short n r)"
    unfolding GetAllPorts_def PortList_def
    by (rule emits_bind, rule emits_call) (use s in \<open>auto intro!: emits_return split: sum.split\<close>)
  moreover have "within 1 (GetFloatingIPDetails E c i)" for i
    unfolding GetFloatingIPDetails_def by (rule within_rules within_calls | simp)+
  moreover have "within 2 (CreatePort E c x1 x2 x3 x4 x5 x6 x7)" for x1 x2 x3 x4 x5 x6 x7
    unfolding CreatePort_def by (rule within_rules within_calls | simp)+
  moreover have "within 1 (GetPort E c i)" for i
    unfolding GetPort_def by (rule within_rules within_calls | simp)+
  moreover have "within 3 (DeletePort E c i)" for i
    unfolding DeletePort_def checkPortExists_def
    by (rule within_deleteResource) (rule within_rules within_calls | simp)+
  moreover have "within 2 (CreateFloatingIP_impl E c x1 x2 x3 x4 x5)" for x1 x2 x3 x4 x5
    unfolding CreateFloatingIP_impl_def by (rule within_rules within_calls | simp)+
  moreover have "within 1 (GetFloatingIP E c i)" for i
    unfolding GetFloatingIP_def by (rule within_rules within_calls | simp)+
  moreover have "within 3 (DeleteFloatingIP E c i)" for i
    unfolding DeleteFloatingIP_def checkFloatingIPExists_def
    by (rule within_deleteResource) (rule within_rules within_calls | simp)+
  moreover have "within 1 (GetFloatingIPByPortID E c i)" for i
    unfolding GetFloatingIPByPortID_def by (rule within_rules within_calls | simp)+
  ultimately show ?thesis by (simp add: bounded_client_def ClientImpl_def)
qed

lemma within_walkCerts: "within (length ds) (walkCerts E ds st)"
proof (induction ds arbitrary: st)
  case (Cons d ds)
  have "within (Suc (length ds)) (walkCerts E ds st)" for st by (rule within_mono [OF Cons.IH]) simp
  note skip = this
  show ?case
    unfolding walkCerts.simps by (rule skip Cons.IH within_rules within_calls | simp)+
qed (simp add: within_return)

lemma within_createHTTPTransport:
  assumes "lists_within E n"
  shows "within (n + 3) (createHTTPTransport E)"
proof -
  have w: "within n (walkCerts E (os_WalkDir (sys E) h path) st)" for h path st
    by (rule within_mono [OF within_walkCerts]) (use assms in \<open>simp add: lists_within_def\<close>)
  have g: "within (l :: nat) (State_Monad.get \<bind> f)" if "\<And>h. within l (f h)" for l and f :: "history \<Rightarrow> (error + Transport option) io"
    using that by (auto simp: within_def emits_def State_Monad.get_def)
  show ?thesis
    unfolding createHTTPTransport_def by (rule g within_bind [OF w] within_rules within_calls | simp)+
qed

lemma NewClient_bounded:
  assumes "lists_within E n"
  shows "emits (NewClient E s ns) (\<lambda>r ev. length ev \<le> n + 7 \<and> (\<forall>cl. r = Inr cl \<longrightarrow> bounded_client n cl))"
proof -
  have "within (n + 7) (NewClient E s ns)"
    unfolding NewClient_def by (rule within_bind [OF within_createHTTPTransport [OF assms]] within_rules within_calls | simp)+
  moreover have "returns (NewClient E s ns) (\<lambda>r. \<forall>cl. r = Inr cl \<longrightarrow> bounded_client n cl)"
    unfolding NewClient_def by (intro returns_intros) (simp_all add: ClientImpl_bounded [OF assms])
  ultimately show ?thesis unfolding within_def by (rule emits_returns)
qed

text \<open>How a computation goes on with a new client, or with a list.\<close>

lemma within_client:
  assumes "emits m (\<lambda>r ev. length ev \<le> k \<and> (\<forall>cl. r = Inr cl \<longrightarrow> bounded_client n cl))" and "k \<le> l"
    and "\<And>e. within (l - k) (f e)" and "\<And>cl. bounded_client n cl \<Longrightarrow> within (l - k) (g cl)"
  shows "within l (do { r \<leftarrow> m; case r of Inl e \<Rightarrow> f e | Inr cl \<Rightarrow> g cl })"
proof (rule within_bind_post [OF assms(1,2)], goal_cases)
  case (1 a)
  then show ?case using assms(3,4) by (cases a) simp_all
qed

lemma within_short:
  assumes "emits m (\<lambda>r ev. length ev \<le> 1 \<and> short n r)" and "1 \<le> l" and "\<And>e. within (l - 1) (f e)"
    and "\<And>xs. length xs \<le> n \<Longrightarrow> within (l - 1) (g xs)"
  shows "within l (do { r \<leftarrow> m; case r of Inl e \<Rightarrow> f e | Inr xs \<Rightarrow> g xs })"
proof (rule within_bind_post [OF assms(1,2)], goal_cases)
  case (1 a)
  then show ?case using assms(3,4) by (cases a) simp_all
qed

lemma short_calls:
  assumes "lists_within E n"
  shows "emits (ListSvcs E) (\<lambda>r ev. length ev \<le> 1 \<and> short n r)" and "emits (ListLBs E) (\<lambda>r ev. length ev \<le> 1 \<and> short n r)"
  using assms by (simp_all add: ListSvcs_def ListLBs_def emits_def lists_within_def)

section \<open>Cleanup and finalization\<close>

lemma identify_length:
  "length (identifyFloatingIPsToDelete fips svc portID fid) \<le> length fips"
  "length (identifyPortsToDelete ports svc portID) \<le> length ports"
  by (induction fips, auto) (induction ports, auto)

lemma within_CleanupResourcesForService:
  assumes "bounded_client n cl" and "retry_spec (lib E)"
  shows "within (6 * n + 12) (CleanupResourcesForService E cl svc)"
proof -
  have l: "emits (Client_GetAllFloatingIPs cl) (\<lambda>r ev. length ev \<le> 1 \<and> short n r)"
    "emits (Client_GetAllPorts cl) (\<lambda>r ev. length ev \<le> 1 \<and> short n r)"
    using assms(1) by (simp_all add: bounded_client_def)
  have f: "within (3 * n) (deleteFloatingIPs_loop cl fid st (identifyFloatingIPsToDelete fips svc pid fid'))"
    if "length fips \<le> n" for fid st fips pid fid'
    unfolding deleteFloatingIPs_loop_def
    by (rule within_foldM [where k = 3], (rule within_rules bounded_clientD [OF assms(1)] | simp)+)
      (use identify_length(1) [of fips svc pid fid'] that in linarith)
  have p: "within (3 * n) (deletePorts_loop cl pid st (identifyPortsToDelete ports svc pid'))"
    if "length ports \<le> n" for pid st ports pid'
    unfolding deletePorts_loop_def
    by (rule within_foldM [where k = 3], (rule within_rules bounded_clientD [OF assms(1)] | simp)+)
      (use identify_length(2) [of ports svc pid'] that in linarith)
  have u: "within 10 (if b then do {
        err \<leftarrow> updateMultipleServiceAnnotations E svc kvs; ret (if err \<noteq> None then True else r) } else ret r)" for b kvs r
    by (rule within_rules within_updates [OF assms(2)] | simp)+
  show ?thesis
    unfolding CleanupResourcesForService_def
    by (rule within_short [OF l(1)] within_short [OF l(2)] within_bind [OF f] within_bind [OF p] within_bind [OF u]
        within_rules | simp)+
qed

text \<open>\<open>r\<close> is the number of steps of the retry on conflicts.\<close>

abbreviation conflict_retries :: "env \<Rightarrow> nat" where
  "conflict_retries E \<equiv> Steps (DefaultRetry (lib E))"

lemma within_forceFinalizerRemoval:
  assumes "retry_spec (lib E)"
  shows "within (conflict_retries E) (forceFinalizerRemoval E svc)"
proof -
  have c: "conflict_spec (lib E)" using assms ..
  then have "0 < conflict_retries E" by (simp add: conflict_spec_def)
  then show ?thesis
    using within_conflict_steps [OF within_primitive(6), of "conflict_retries E - 1" "IsConflict (lib E)" E svc finalizersNullPatch]
    by (simp add: forceFinalizerRemoval_def RetryOnConflict_eq [OF c] within_return)
qed

lemma within_Finalization:
  assumes "bounded_client n cl" and "retry_spec (lib E)"
  shows "within (6 * n + 22 + conflict_retries E) (HandleServiceFinalizationWithForce E cl svc)"
  unfolding HandleServiceFinalizationWithForce_def
  by (rule within_bind [OF within_CleanupResourcesForService [OF assms]] within_bind [OF within_forceFinalizerRemoval [OF assms(2)]]
      within_updates [OF assms(2)] within_rules | simp)+

section \<open>Services\<close>

lemma within_Client_loop:
  assumes "lists_within E n" and "length lbs * (n + 7) \<le> l"
  shows "emits (getOpenStackClientForService_loop E svc lbs)
    (\<lambda>r ev. length ev \<le> l \<and> (\<forall>cl. r = Some cl \<longrightarrow> bounded_client n cl))"
  using assms(2)
proof (induction lbs arbitrary: l)
  case (Cons lb lbs)
  from Cons.prems have l: "n + 7 \<le> l" "length lbs * (n + 7) \<le> l - (n + 7)" by simp_all
  note IH = Cons.IH [OF l(2)]
  show ?case
  proof (cases "isServiceMatchingLBClass svc (ClassName (Spec lb))")
    case True
    show ?thesis
      by (simp only: getOpenStackClientForService_loop.simps True if_True getOpenStackClient_def)
        (rule emits_bind_weaken [OF NewClient_bounded [OF assms(1)]],
          use l in \<open>auto intro!: emits_return emits_weaken [OF IH] split: sum.split\<close>)
  next
    case False
    have "length lbs * (n + 7) \<le> l" using l by simp
    with False show ?thesis using Cons.IH by simp
  qed
qed (simp add: emits_return)

lemma within_service_client:
  assumes "lists_within E n"
  shows "emits (getOpenStackClientFromService E svc)
    (\<lambda>r ev. length ev \<le> (n + 1) * (n + 7) + 1 \<and> (\<forall>cl. r = Inr cl \<longrightarrow> bounded_client n cl))"
proof -
  let ?Q = "\<lambda>r ev. length ev \<le> (n + 1) * (n + 7) + 1 \<and> (\<forall>cl. r = Inr cl \<longrightarrow> bounded_client n cl)"
  have new: "emits (NewClient E s ns) (\<lambda>r e2. ?Q r (e1 @ e2))" if "length e1 \<le> n * (n + 7) + 1" for s ns and e1 :: history
    by (rule emits_weaken [OF NewClient_bounded [OF assms]]) (use that in auto)
  have "emits (getOpenStackClientForService E svc) ?Q"
    unfolding getOpenStackClientForService_def
  proof (rule emits_bind_weaken [OF short_calls(2) [OF assms]], goal_cases)
    case e1: (1 r e1)
    show ?case
    proof (cases r)
      case (Inr items)
      with e1 have "length items * (n + 7) \<le> n * (n + 7)" by simp
      from within_Client_loop [OF assms this] show ?thesis
        unfolding Inr sum.case
      proof (rule emits_bind_weaken, goal_cases)
        case (1 found e2)
        then show ?case using e1 new [of "e1 @ e2"]
          by (auto simp: getOpenStackClient_def intro!: emits_return split: option.split list.split)
      qed
    qed (use e1 in \<open>auto intro!: emits_return\<close>)
  qed
  with new [of "[]"] show ?thesis by (simp add: getOpenStackClientFromService_def Let_def)
qed

lemma within_reconcileService:
  assumes L: "lists_within E n" and R: "retry_spec (lib E)"
  shows "within (n * n + 14 * n + 31 + conflict_retries E) (reconcileService E req)"
proof -
  have "within ((n + 1) * (n + 7) + 1 + (6 * n + 22 + conflict_retries E)) (reconcileDeletedService E svc)" for svc
    unfolding reconcileDeletedService_def
    by (rule within_client [OF within_service_client [OF L]] within_bind [OF within_updates(5) [OF R]]
        within_bind [OF within_forceFinalizerRemoval [OF R]] within_bind [OF within_Finalization [OF _ R]] within_rules | simp)+
  then have d: "within (n * n + 14 * n + 31 + conflict_retries E - 1) (reconcileDeletedService E svc)" for svc
    by (rule within_mono) (simp add: algebra_simps)
  have "within 10 (ensureServiceFinalizer E svc)" for svc
    unfolding ensureServiceFinalizer_def by (rule within_updates [OF R] within_rules | simp)+
  note fin = within_bind [OF this]
  have "within 10 (updateServiceWithCredentials E svc lb)" for svc lb
    unfolding updateServiceWithCredentials_def by (rule within_updates [OF R])
  note cred = within_bind [OF this]
  have "within 21 (reconcileLiveService E svc)" for svc
    unfolding reconcileLiveService_def
    by (rule within_short [OF short_calls(2) [OF L]] fin cred within_rules | simp)+
  then have l: "within (n * n + 14 * n + 31 + conflict_retries E - 1) (reconcileLiveService E svc)" for svc
    by (rule within_mono) simp
  show ?thesis
    unfolding reconcileService_def by (rule d l within_rules within_primitive | simp)+
qed

section \<open>Load balancers\<close>

lemma within_handleDeletion:
  assumes L: "lists_within E n" and R: "retry_spec (lib E)"
  shows "within (6 * n * n + (23 + conflict_retries E) * n + 18) (handleDeletion E lb)"
proof -
  have s: "within (6 * n + 22 + conflict_retries E) (handleDeletion_step E lb cl b svc)" if "bounded_client n cl" for cl b svc
  proof -
    have "within (6 * n + 22 + conflict_retries E) (if c then HandleServiceFinalizationWithForce E cl svc else CleanupResourcesForService E cl svc)" for c
      by (rule within_if [OF within_Finalization [OF that R] within_mono [OF within_CleanupResourcesForService [OF that R]]]) simp
    note body = within_bind [OF this]
    show ?thesis unfolding handleDeletion_step_def by (rule body within_rules | simp)+
  qed
  have loop: "within (n * (6 * n + 22 + conflict_retries E)) (handleDeletion_loop E lb cl b svcs)"
    if "bounded_client n cl" "length svcs \<le> n" for cl b svcs
    unfolding handleDeletion_loop_def by (rule within_foldM [OF s [OF that(1)]]) (use that(2) in simp)
  have "within (n + 7 + (1 + (n * (6 * n + 22 + conflict_retries E) + 10))) (handleDeletion E lb)"
    unfolding handleDeletion_def getOpenStackClient_def
    by (rule within_client [OF NewClient_bounded [OF L]] within_short [OF short_calls(1) [OF L]] within_bind [OF loop]
        within_bind [OF within_updates(5) [OF R]] within_rules | simp)+
  then show ?thesis by (rule within_mono) (simp add: algebra_simps)
qed

lemma within_setCondition: "within 1 (setCondition E lb t st reason msg)"
  unfolding setCondition_def by (rule within_rules within_calls | simp)+

lemma within_processService:
  assumes C: "bounded_client n cl" and R: "retry_spec (lib E)"
  shows "within 61 (processService E lb svc cl ip)"
proof -
  note b = within_bind [OF within_updates(1) [OF R]] within_bind [OF within_updates(2) [OF R]] within_bind [OF within_updates(3) [OF R]]
    within_bind [OF within_updates(5) [OF R]] within_bind [OF within_setCondition] within_rules within_primitive bounded_clientD [OF C]
  have "within 10 (ensureServiceHasFinalizer E svc)"
    unfolding ensureServiceHasFinalizer_def by (rule b | simp)+
  note fin = within_bind [OF this]
  have "within 10 (ensureServiceHasCredentials E svc lb)"
    unfolding ensureServiceHasCredentials_def by (rule b | simp)+
  note cred = within_bind [OF this]
  have "within 2 (detectNetworkForLB E lb cl ip)"
    unfolding detectNetworkForLB_def by (rule b | simp)+
  note net = within_bind [OF this]
  have "within 14 (ensurePortExists E l svc cl ip)" for l
    unfolding ensurePortExists_def by (rule b | simp)+
  note port = within_bind [OF this]
  have pub: "within 10 (publishFloatingIP E svc a)" for a
    unfolding publishFloatingIP_def by (rule b | simp)+
  have create: "within 15 (createOrFindFloatingIP E l svc cl p)" for l p
    unfolding createOrFindFloatingIP_def by (rule b | simp)+
  have "within 25 (handleFloatingIP E l svc cl p)" for l p
    unfolding handleFloatingIP_def by (rule within_bind [OF create] within_bind [OF pub] b | simp)+
  note fip = within_bind [OF this]
  show ?thesis
    unfolding processService_def by (rule fin cred net port fip within_rules | simp)+
qed

lemma within_reconcileLB:
  assumes L: "lists_within E n" and R: "retry_spec (lib E)"
  shows "within (62 * n + 19) (reconcileLB E lb)"
proof -
  have loop: "within (61 * n) (Reconcile_loop E cl st svcs)" if "bounded_client n cl" "length svcs \<le> n" for cl st svcs
    unfolding Reconcile_loop_def
    by (rule within_foldM [where k = 61], (rule within_bind [OF within_processService [OF that(1) R]] within_rules | simp)+)
      (use that(2) in simp)
  have "within 1 (Reconcile_status E st)" for st
    unfolding Reconcile_status_def by (rule within_setCondition within_bind [OF within_setCondition] within_rules | simp)+
  note st = within_bind [OF this]
  show ?thesis
    unfolding reconcileLB_def getOpenStackClient_def
    by (rule within_client [OF NewClient_bounded [OF L]] within_short [OF short_calls(1) [OF L]] within_bind [OF loop] st
        within_bind [OF within_setCondition] within_bind [OF within_updates(4) [OF R]] within_rules | simp)+
qed

section \<open>A whole pass\<close>

text \<open>
  C13: every pass of the reconciler ends. With lists of at most \<open>n\<close> elements and \<open>r\<close> steps of the
  retry on conflicts it makes at most \<open>6 n\<^sup>2 + (62 + r) n + 40 + r\<close> calls, also when every call fails or
  every update conflicts.
\<close>

theorem Reconcile_bounded_calls:
  assumes "lists_within E n" and "retry_spec (lib E)" and "run_state (Reconcile E req) h = (res, h')"
  shows "\<exists>ev. h' = h @ ev
    \<and> length ev \<le> 6 * n * n + (62 + Steps (DefaultRetry (lib E))) * n + 40 + Steps (DefaultRetry (lib E))"
proof -
  let ?B = "6 * n * n + (62 + conflict_retries E) * n + 40 + conflict_retries E"
  have s: "within ?B (reconcileService E req)"
    by (rule within_mono [OF within_reconcileService [OF assms(1,2)]]) (simp add: algebra_simps)
  have d: "within (?B - 1) (handleDeletion E lb)" for lb
    by (rule within_mono [OF within_handleDeletion [OF assms(1,2)]]) (simp add: algebra_simps)
  have r: "within (?B - 1) (reconcileLB E lb)" for lb
    by (rule within_mono [OF within_reconcileLB [OF assms(1,2)]]) (simp add: algebra_simps)
  have u: "within (?B - 1) (updateResourceWithRetry E obj \<bind> (\<lambda>err. if err \<noteq> None then ret (noRequeue, err) else ret (noRequeue, None)))" for obj
    by (rule within_bind [OF within_updates(5) [OF assms(2)]] within_rules | simp)+
  have "within ?B (Reconcile E req)"
    unfolding Reconcile_def by (rule s d r u within_rules within_primitive | simp)+
  from emitsD [OF this [unfolded within_def] assms(3)] show ?thesis by blast
qed

lemma sample_lists: "lists_within sample_env 1"
  by (simp add: lists_within_def sample_env_def sample_k8s_def sample_gopher_def sample_sys_def)

lemma sample_retries: "lib sample_env = ref_library" "Steps (DefaultRetry ref_library) = 5"
  by (simp_all add: sample_env_def ref_library_def)

theorem Reconcile_bounded_calls_witness:
  "length (snd (run_state (Reconcile sample_env \<lparr>nnName = ''lb'', nnNamespace = []\<rparr>) [])) \<le> 118"
proof -
  obtain res h' where r: "run_state (Reconcile sample_env \<lparr>nnName = ''lb'', nnNamespace = []\<rparr>) [] = (res, h')" by fastforce
  have "retry_spec (lib sample_env)" by (simp add: sample_retries)
  from Reconcile_bounded_calls [OF sample_lists this r] show ?thesis by (simp add: r sample_retries)
qed

end
