(* ===== verification/Finalization.thy ===== *)
theory Finalization
  imports Openstack_Store
begin

text \<open>
  The last pass over a service: what \<open>HandleServiceFinalizationWithForce\<close> of
  \<open>src/internal/controller/utils.go\<close> and the cleanup before it achieve when no call fails. The safety
  theorems of \<open>Resource_Cleanup\<close> say when the finalizer may be given up; here it is given up, at the
  first attempt, and nothing is left behind, with or without annotations.
\<close>

section \<open>Calls that succeed\<close>

text \<open>
  An answer that lets the finalization go on: lists can be read, a lookup or deletion of something that
  does not exist is fine, a resource whose tags can be read is owned by the operator, and the API
  server accepts reads and writes.
\<close>

fun succeeds :: "env \<Rightarrow> event \<Rightarrow> bool" where
  "succeeds E (EFipList c i r) = (case r of Inl _ \<Rightarrow> False | Inr pages \<Rightarrow>
     (case fip_Extract (gopher E) pages of Inl _ \<Rightarrow> False | Inr _ \<Rightarrow> True))"
| "succeeds E (EPortList c r) = (case r of Inl _ \<Rightarrow> False | Inr pages \<Rightarrow>
     (case port_Extract (gopher E) pages of Inl _ \<Rightarrow> False | Inr _ \<Rightarrow> True))"
| "succeeds E (EFipGet c i (Inl e)) = IsNotFoundError e"
| "succeeds E (EPortGet c i (Inl e)) = IsNotFoundError e"
| "succeeds E (EFipDelete c i (Some e)) = IsNotFoundError e"
| "succeeds E (EPortDelete c i (Some e)) = IsNotFoundError e"
| "succeeds E (ETagsList c rt i (Inr ts)) = isResourceOwnedByOperator ts"
| "succeeds E (EGetSvc k (Inl e)) = False"
| "succeeds E (EGetLB k (Inl e)) = False"
| "succeeds E (EUpdate obj (Inl e)) = False"
| "succeeds E (EPatchSvc svc p (Some e)) = False"
| "succeeds E _ = True"

lemma succeeds_patch [simp]: "succeeds E (EPatchSvc svc p r) \<longleftrightarrow> r = None"
  by (cases r) simp_all

lemma map_sum_id_eq [simp]:
  "map_sum id f a = Inl x \<longleftrightarrow> a = Inl x" "map_sum id f a = Inr y \<longleftrightarrow> (\<exists>z. a = Inr z \<and> y = f z)"
  by (cases a; auto)+

abbreviation all_succeed_in :: "env \<Rightarrow> event list \<Rightarrow> bool" where
  "all_succeed_in E ev \<equiv> list_all (succeeds E) ev"

lemma DeletePort_succeeds: "emits (DeletePort E c i) (\<lambda>err ev. all_succeed_in E' ev \<longrightarrow> err = None)"
  unfolding DeletePort_def deleteResource_def checkPortExists_def PortGet_def TagsList_def PortDelete_def
  by (auto intro!: emits_bind emits_call emits_return split: sum.split option.split)

lemma DeleteFloatingIP_succeeds: "emits (DeleteFloatingIP E c i) (\<lambda>err ev. all_succeed_in E' ev \<longrightarrow> err = None)"
  unfolding DeleteFloatingIP_def deleteResource_def checkFloatingIPExists_def FipGet_def TagsList_def FipDelete_def
  by (auto intro!: emits_bind emits_call emits_return split: sum.split option.split)

lemma deletion_loop_succeeds:
  assumes del: "\<And>x. emits (del x) (\<lambda>err ev. all_succeed_in E ev \<longrightarrow> err = None)"
  shows "emits (foldM (\<lambda>(rq, clear) x. do {
       err \<leftarrow> del x;
       case err of Some e \<Rightarrow> ret (True, clear) | None \<Rightarrow> ret (rq, if g x then True else clear)
     }) st xs) (\<lambda>st' ev. all_succeed_in E ev \<longrightarrow> fst st' = fst st)"
proof (induction xs arbitrary: st)
  case Nil
  show ?case by (simp add: emits_return)
next
  case (Cons x xs)
  obtain rq clear where st: "st = (rq, clear)" by (cases st)
  show ?case
    unfolding foldM.simps st prod.case State_Monad.bind_assoc
    by (rule emits_bind_weaken [OF del [of x]])
      (auto intro!: emits_weaken [OF Cons.IH] split: option.split)
qed

text \<open>If no call fails, the first attempt is the only one.\<close>

lemma retry_first_succeeds:
  assumes f: "\<And>obj. emits (f obj) (\<lambda>r ev. all_succeed_in E ev \<longrightarrow> fst r = (True, None) \<and> R obj ev)"
  shows "emits (retry_steps n f obj) (\<lambda>r ev. all_succeed_in E ev \<and> n \<noteq> 0 \<longrightarrow> fst r = None \<and> R obj ev)"
proof (induction n arbitrary: obj)
  case (Suc n)
  show ?case
    unfolding retry_steps.simps
  proof (rule emits_bind_weaken [OF f], goal_cases)
    case (1 a e1)
    obtain d err obj' where "a = ((d, err), obj')" by (metis prod.collapse)
    with 1 show ?case by (auto intro!: emits_return emits_weaken [OF Suc.IH])
  qed
qed (simp add: emits_return)

lemma backoff_succeeds:
  assumes "backoff_spec (lib E)"
    and "\<And>obj. emits (f obj) (\<lambda>r ev. all_succeed_in E ev \<longrightarrow> fst r = (True, None) \<and> R obj ev)"
  shows "emits (ExponentialBackoff (lib E) RetryBackoff f obj) (\<lambda>r ev. all_succeed_in E ev \<longrightarrow> fst r = None \<and> R obj ev)"
  using retry_first_succeeds [where f = f and E = E and n = 5 and obj = obj and R = R, OF assms(2)]
  by (simp add: ExponentialBackoff_eq [OF assms(1)] RetryBackoff_def)

lemma updateMultiple_succeeds:
  assumes "backoff_spec (lib E)"
  shows "emits (updateMultipleServiceAnnotations E svc kvs) (\<lambda>err ev. all_succeed_in E ev \<longrightarrow> err = None)"
proof -
  have "emits (plain_attempt (updateMultipleServiceAnnotations_attempt E svc kvs) obj)
      (\<lambda>r ev. all_succeed_in E ev \<longrightarrow> fst r = (True, None) \<and> True)" for obj
    unfolding plain_attempt_def updateMultipleServiceAnnotations_attempt_def GetSvc_def Update_def
    by (auto simp: Let_def intro!: emits_bind emits_call emits_return split: sum.split)
  note a = backoff_succeeds [OF assms this]
  show ?thesis
    unfolding updateMultipleServiceAnnotations_def backoff_plain_def
    by (rule emits_bind_weaken [OF a]) (auto intro!: emits_return split: prod.split)
qed

section \<open>The cleanup\<close>

lemma cleanup_tail_succeeds:
  assumes "backoff_spec (lib E)"
    and "e1 = [EFipList c [] (Inr fpages)]" and "e2 = [EPortList c (Inr ppages)]"
    and "fip_Extract (gopher E) fpages = Inr fips" and "port_Extract (gopher E) ppages = Inr ports"
    and ids: "extractResourceIDsFromAnnotations svc = (portID, floatingIPID)"
  shows "emits (do {
                (needsRequeue1, clearFIP) \<leftarrow>
                  deleteFloatingIPs_loop (ClientImpl E c) floatingIPID (False, False)
                    (identifyFloatingIPsToDelete fips svc portID floatingIPID);
                (needsRequeue2, clearPort) \<leftarrow>
                  deletePorts_loop (ClientImpl E c) portID (needsRequeue1, False)
                    (identifyPortsToDelete ports svc portID);
                needsRequeue3 \<leftarrow>
                  (if annotationsToUpdate clearFIP clearPort \<noteq> [] then do {
                     err \<leftarrow> updateMultipleServiceAnnotations E svc (annotationsToUpdate clearFIP clearPort);
                     ret (if err \<noteq> None then True else needsRequeue2)
                   } else ret needsRequeue2);
                if needsRequeue3 then ret (True, None)
                else if hasAnnotation svc AnnotationPortID \<or> hasAnnotation svc AnnotationFloatingIPID
                then ret (True, None)
                else ret (False, None)
              }) (\<lambda>r e3. all_succeed_in E (e1 @ e2 @ e3) \<longrightarrow>
                     r = (annotated svc, None) \<and> cleanup_complete E c svc (e1 @ e2 @ e3))"
proof -
  have fl: "emits (deleteFloatingIPs_loop (ClientImpl E c) floatingIPID st xs) (\<lambda>st' ev. all_succeed_in E ev \<longrightarrow> fst st' = fst st)" for st xs
    unfolding deleteFloatingIPs_loop_def
    by (rule deletion_loop_succeeds) (simp add: ClientImpl_def DeleteFloatingIP_succeeds)
  have pl: "emits (deletePorts_loop (ClientImpl E c) portID st xs) (\<lambda>st' ev. all_succeed_in E ev \<longrightarrow> fst st' = fst st)" for st xs
    unfolding deletePorts_loop_def
    by (rule deletion_loop_succeeds) (simp add: ClientImpl_def DeletePort_succeeds)
  have up: "emits (if b then do {
         err \<leftarrow> updateMultipleServiceAnnotations E svc kvs; ret (if err \<noteq> None then True else r)
       } else ret r) (\<lambda>r' ev. all_succeed_in E ev \<longrightarrow> r' = r)" for b kvs r
    by (auto intro!: emits_return emits_bind_weaken [OF updateMultiple_succeeds [OF assms(1)]])
  show ?thesis
    apply (rule emits_bind_weaken [OF emits_conj [OF deleteFloatingIPs_loop_emits fl]])
    subgoal premises p for st1 f
      apply (cases st1, simp only: prod.case)
      apply (rule emits_bind_weaken [OF emits_conj [OF deletePorts_loop_emits pl]])
      subgoal premises q for rq1 clear1 st2 g
        apply (cases st2, simp only: prod.case)
        apply (rule emits_bind_weaken [OF up])
        subgoal premises u for rq2 clear2 rq3 w
        proof -
          have "cleanup_complete E c svc (e1 @ e2 @ f @ g @ w) \<and> \<not> rq3" if "all_succeed_in E (e1 @ e2 @ f @ g @ w)"
            unfolding cleanup_complete_def using p q u that assms(2-6)
            by (intro conjI exI [of _ fpages] exI [of _ ppages] exI [of _ fips] exI [of _ ports])
              (auto simp: identifyFloatingIPsToDelete_filter identifyPortsToDelete_filter)
          then show ?thesis
            by (auto simp: annotated_def intro!: emits_return)
        qed
        done
      done
    done
qed

lemma cleanup_succeeds:
  assumes "backoff_spec (lib E)"
  shows "emits (CleanupResourcesForService E (ClientImpl E c) svc)
    (\<lambda>r ev. all_succeed_in E ev \<longrightarrow> r = (annotated svc, None) \<and> cleanup_complete E c svc ev)"
proof -
  have cl: "Client_GetAllFloatingIPs (ClientImpl E c) = GetAllFloatingIPs E c"
     "Client_GetAllPorts (ClientImpl E c) = GetAllPorts E c" by (simp_all add: ClientImpl_def)
  have lf: "emits (GetAllFloatingIPs E c) (\<lambda>r ev. all_succeed_in E ev \<longrightarrow> (\<exists>fips. r = Inr fips))"
    unfolding GetAllFloatingIPs_def FipList_def by (auto intro!: emits_bind emits_call emits_return split: sum.split)
  have lp: "emits (GetAllPorts E c) (\<lambda>r ev. all_succeed_in E ev \<longrightarrow> (\<exists>ports. r = Inr ports))"
    unfolding GetAllPorts_def PortList_def by (auto intro!: emits_bind emits_call emits_return split: sum.split)
  show ?thesis
    unfolding CleanupResourcesForService_def cl
    apply (rule emits_bind_weaken [OF emits_conj [OF GetAllFloatingIPs_emits lf]])
    subgoal for fips e1
      apply (cases fips; simp only: sum.case)
      subgoal by (rule emits_return) auto
      apply (rule emits_bind_weaken [OF emits_conj [OF GetAllPorts_emits lp]])
      subgoal for fips' ports e2
        apply (cases ports; simp only: sum.case)
        subgoal by (rule emits_return) auto
        subgoal premises p for ports'
        proof -
          obtain pid fid where ids: "extractResourceIDsFromAnnotations svc = (pid, fid)" by fastforce
          from p obtain fpages ppages where "e1 = [EFipList c [] (Inr fpages)]" "e2 = [EPortList c (Inr ppages)]"
            "fip_Extract (gopher E) fpages = Inr fips'" "port_Extract (gopher E) ppages = Inr ports'"
            by auto
          from cleanup_tail_succeeds [OF assms this ids] show ?thesis
            by (simp only: ids Let_def prod.case append_assoc)
        qed
        done
      done
    done
qed

section \<open>The finalization\<close>

text \<open>
  The call that releases the service: an accepted update that sends it with exactly the operator's
  finalizer removed, or an accepted patch that removes all finalizers.
\<close>

definition released_by :: "Service \<Rightarrow> event \<Rightarrow> bool" where
  "released_by svc e \<longleftrightarrow> e = EPatchSvc svc ''{\"metadata\":{\"finalizers\":null}}'' None
     \<or> (\<exists>fs v stored. e = EUpdate (SetResourceVersion (with_finalizers (SvcObj svc) fs) v) (Inr stored)
          \<and> set fs = set (svcFinalizers svc) - {''openstack.jacero.io/service-finalizer''})"

lemma released_by_patch [simp]: "released_by svc (EPatchSvc svc finalizersNullPatch None)"
  by (simp add: released_by_def finalizersNullPatch_def)

lemma released_by_update:
  assumes "finalizer_spec (lib E)"
  shows "released_by svc (EUpdate (SvcObj ((removeServiceFinalizer E svc)\<lparr>svcMeta :=
     (svcMeta (removeServiceFinalizer E svc))\<lparr>ResourceVersion := v\<rparr>\<rparr>)) (Inr stored))"
  by (auto simp: released_by_def removeServiceFinalizer_def svcSetFinalizers_def set_RemoveFinalizer [OF assms] ServiceFinalizer_def
      intro!: exI [of _ "RemoveFinalizer (lib E) (svcFinalizers svc) ServiceFinalizer"])

lemma update_releases:
  assumes "backoff_spec (lib E)" and "finalizer_spec (lib E)"
  shows "emits (updateResourceWithRetry E (SvcObj (removeServiceFinalizer E svc)))
    (\<lambda>err ev. all_succeed_in E ev \<longrightarrow> err = None \<and> ev \<noteq> [] \<and> released_by svc (last ev))"
proof -
  let ?R = "\<lambda>obj ev. obj = SvcObj (removeServiceFinalizer E svc) \<longrightarrow> ev \<noteq> [] \<and> released_by svc (last ev)"
  have "emits (updateResource_attempt E obj) (\<lambda>r ev. all_succeed_in E ev \<longrightarrow> fst r = (True, None) \<and> ?R obj ev)" for obj
    unfolding updateResource_attempt_def Update_def
    by (cases obj) (auto simp: GetLB_def GetSvc_def Let_def released_by_update [OF assms(2)] intro!: emits_bind emits_call emits_return split: sum.split)
  note a = backoff_succeeds [OF assms(1) this]
  show ?thesis
    unfolding updateResourceWithRetry_def
    by (rule emits_bind_weaken [OF a]) (auto intro!: emits_return split: prod.split)
qed

lemma patch_releases:
  assumes "conflict_spec (lib E)" and "svcTerminating svc"
  shows "emits (forceFinalizerRemoval E svc)
    (\<lambda>err ev. all_succeed_in E ev \<longrightarrow> err = None \<and> ev \<noteq> [] \<and> released_by svc (last ev))"
  by (rule emits_weaken [OF forceFinalizerRemoval_emits [OF assms]])
    (auto simp: list_all_iff split: option.splits)

lemma finalization_succeeds:
  assumes R: "retry_spec (lib E)" and F: "finalizer_spec (lib E)" and t: "svcTerminating svc"
    and f: "ContainsFinalizer (lib E) (svcFinalizers svc) ServiceFinalizer"
  shows "emits (HandleServiceFinalizationWithForce E (ClientImpl E c) svc) (\<lambda>r ev. all_succeed_in E ev \<longrightarrow>
     r = (False, None) \<and> released_by svc (last ev)
     \<and> (\<exists>ev1 ev2. ev = ev1 @ ev2 \<and> cleanup_complete E c svc ev1 \<and> list_all (\<lambda>e. \<not> is_create e) ev))"
proof -
  have b: "backoff_spec (lib E)" and cs: "conflict_spec (lib E)" using R by auto
  have sf: "shouldForceCleanup E svc \<longleftrightarrow> annotated svc" using t f by (simp add: shouldForceCleanup_def annotated_def)
  let ?Q = "\<lambda>r e2. list_all (\<lambda>e. \<not> is_create e) e2 \<and> (all_succeed_in E e2 \<longrightarrow> r = (False, None) \<and> e2 \<noteq> [] \<and> released_by svc (last e2))"
  have patch: "emits (do { forceErr \<leftarrow> forceFinalizerRemoval E svc; if forceErr \<noteq> None then ret (True, forceErr) else ret (False, None) }) ?Q"
    by (rule emits_bind_weaken [OF emits_conj [OF patch_releases [OF cs t] no_create.safe_forceFinalizerRemoval [OF cs]]])
      (auto intro!: emits_return)
  have update: "emits (do { updateErr \<leftarrow> updateResourceWithRetry E (SvcObj (removeServiceFinalizer E svc));
      case updateErr of None \<Rightarrow> ret (False, None)
      | Some e \<Rightarrow> if strings_Contains (Error e) ''conflict'' \<or> \<not> IsZero (DeletionTimestamp (svcMeta svc))
          then do { forceErr \<leftarrow> forceFinalizerRemoval E svc; if forceErr \<noteq> None then ret (True, forceErr) else ret (False, None) }
          else ret (True, Some e) }) ?Q"
    apply (rule emits_bind_weaken [OF emits_conj [OF update_releases [OF b F] no_create.safe_updateResourceWithRetry [OF b]]])
    subgoal for err e1
      by (cases err) (auto simp del: not_None_eq intro!: emits_return emits_weaken [OF patch])
    done
  show ?thesis
    unfolding HandleServiceFinalizationWithForce_def if_not_P [OF f [THEN not_not [THEN iffD2]]]
    apply (rule emits_bind_weaken [OF emits_conj [OF cleanup_succeeds [OF b] cleanup_creates_nothing [OF R]]])
    subgoal for a e1
      apply (cases a, simp only: prod.case)
      subgoal for rq err
        by (auto simp: sf simp del: not_None_eq intro!: emits_return emits_weaken [OF patch] emits_weaken [OF update])
      done
    done
qed


lemma updateResource_first_attempt:
  assumes "backoff_spec (lib E)" and "k8s_GetSvc (k8s E) h (svcKey svc) = Inr cur"
    and "\<And>h obj. k8s_Update (k8s E) h obj = Inr obj"
  shows "\<exists>obj. run_state (updateResourceWithRetry E (SvcObj svc)) h
      = (None, h @ [EGetSvc (svcKey svc) (Inr cur), EUpdate obj (Inr obj)])
    \<and> obj = SetResourceVersion (SvcObj svc) (ResourceVersion (svcMeta cur))"
  using assms by (simp add: updateResourceWithRetry_def backoff_first updateResource_attempt_def call_defs Let_def)

lemma finalize_sample_trace:
  "\<exists>v. run_state (HandleServiceFinalizationWithForce dying_env (ClientImpl dying_env sample_net) sample_dying) []
     = ((False, None), [] @ (cleanup_trace @ [EGetSvc (svcKey (removeServiceFinalizer dying_env sample_dying)) (Inr sample_dying),
         EUpdate (SetResourceVersion (SvcObj (removeServiceFinalizer dying_env sample_dying)) v)
           (Inr (SetResourceVersion (SvcObj (removeServiceFinalizer dying_env sample_dying)) v))]))"
proof -
  have c: "ContainsFinalizer ref_library (svcFinalizers sample_dying) ServiceFinalizer"
    by (simp add: sample_dying_def ServiceFinalizer_def ref_library_def)
  have g: "k8s_GetSvc (k8s dying_env) cleanup_trace (svcKey (removeServiceFinalizer dying_env sample_dying)) = Inr sample_dying"
    and u: "\<And>h obj. k8s_Update (k8s dying_env) h obj = Inr obj" and b: "backoff_spec (lib dying_env)"
    by (simp_all add: sample_k8s_def)
  from updateResource_first_attempt [OF b g u] show ?thesis
    by (intro exI [of _ "ResourceVersion (svcMeta sample_dying)"])
      (simp add: HandleServiceFinalizationWithForce_def c cleanup_sample)
qed


section \<open>From creation to deletion\<close>

lemma store_trace_answer: "store_trace E st es \<Longrightarrow> e \<in> set es \<Longrightarrow> \<exists>st'. answer_ok E st' e"
  by (induction es arbitrary: st) auto

lemma create_selected_same:
  "svcNamespace later = svcNamespace svc \<Longrightarrow> svcName later = svcName svc \<Longrightarrow> create_selected later e = create_selected svc e"
  by (cases e) (simp_all add: shouldDeletePort_def shouldDeleteFloatingIP_def portNameFor_def serviceIdentifier_def)


text \<open>The service after both IDs were recorded and its deletion was requested, and its cleanup.\<close>

definition recorded_dying :: Service where
  "recorded_dying = sample_svc\<lparr>svcMeta := (sample_meta ''web'')\<lparr>ResourceVersion := ''9'', DeletionTimestamp := Some 5,
     Finalizers := [ServiceFinalizer],
     Annotations := Some [AnnotationPortID \<mapsto> ''p1'', AnnotationFloatingIPID \<mapsto> ''f1'']\<rparr>\<rparr>"

lemma updateMultiple_first_attempt:
  assumes "backoff_spec (lib E)" and "k8s_GetSvc (k8s E) h (svcKey svc) = Inr cur" and "\<And>h obj. k8s_Update (k8s E) h obj = Inr obj"
  shows "\<exists>obj. run_state (updateMultipleServiceAnnotations E svc kvs) h
    = (None, h @ [EGetSvc (svcKey svc) (Inr cur), EUpdate obj (Inr obj)])"
  using assms by (simp add: updateMultipleServiceAnnotations_def backoff_plain_def backoff_first plain_attempt_def
      updateMultipleServiceAnnotations_attempt_def call_defs Let_def)

lemma cleanup_recorded:
  "\<exists>cur obj. run_state (CleanupResourcesForService adopted_env (ClientImpl adopted_env sample_net) recorded_dying) h
     = ((True, None), h @ cleanup_trace @ [EGetSvc (svcKey recorded_dying) (Inr cur), EUpdate obj (Inr obj)])"
proof -
  have a: "extractResourceIDsFromAnnotations recorded_dying = (''p1'', ''f1'')" "hasAnnotation recorded_dying AnnotationPortID"
    by (simp_all add: recorded_dying_def extractResourceIDsFromAnnotations_def hasAnnotation_def gmap_index_def gmap_lookup_def
        annotation_keys_distinct)
  have f: "FIP_ID sample_fip = ''f1''" "Port_ID sample_port = ''p1''"
    "shouldDeletePort recorded_dying ''p1'' sample_port" "shouldDeleteFloatingIP recorded_dying ''p1'' ''f1'' sample_fip"
    by (simp_all add: sample_fip_def sample_port_def shouldDeletePort_def shouldDeleteFloatingIP_def)
  have r: "run_state (GetAllFloatingIPs adopted_env c) h = (Inr [sample_fip], h @ [EFipList c [] (Inr (Page ''fips''))])"
    "run_state (GetAllPorts adopted_env c) h = (Inr [sample_port], h @ [EPortList c (Inr (Page ''ports''))])" for c h
    by (simp_all add: GetAllFloatingIPs_def GetAllPorts_def call_defs sample_gopher_def)
  have g: "gopher adopted_env = sample_gopher" by simp
  have b: "backoff_spec (lib adopted_env)" by simp
  obtain obj where "run_state (updateMultipleServiceAnnotations adopted_env recorded_dying (annotationsToUpdate True True)) (h @ cleanup_trace)
      = (None, (h @ cleanup_trace) @ [EGetSvc (svcKey recorded_dying) (Inr sample_svc), EUpdate obj (Inr obj)])"
    using updateMultiple_first_attempt [OF b adopted_env_simps(6) adopted_env_simps(7)] by blast
  then show ?thesis
    by (intro exI [of _ sample_svc] exI [of _ obj])
      (simp add: CleanupResourcesForService_def ClientImpl_def r f a deleteFloatingIPs_loop_def deletePorts_loop_def
        DeletePort_sample [OF g] DeleteFloatingIP_sample [OF g] annotationsToUpdate_def cleanup_trace_def)
qed

definition empty_ports :: os_store where
  "empty_ports = \<lparr>live_ports = {}, live_fips = {sample_fip}\<rparr>"


end
