(* ===== verification/Spec2Isabelle.thy ===== *)
theory Spec2Isabelle
  imports Openstack_Store Convergence Deep_Copy Manager_Setup Call_Bounds Finalization
begin

text \<open>
  A verification development of the OpenStack load balancer operator.

  \<^bold>\<open>The program.\<close> The operator runs in a Kubernetes cluster next to a load balancer implementation that
  gives services addresses of an OpenStack network. For every service of a class named by an
  OpenStackLoadBalancer resource it creates a Neutron port with the service's address (so that
  OpenStack does not hand the address out again) and, if asked to, a floating IP for that port; it
  records their IDs in annotations of the service, publishes the floating IP in the service's
  external IPs, and deletes both again when the service or the load balancer resource goes away. Two
  finalizers keep the Kubernetes objects alive until then. It is a controller-runtime reconciler:
  requests arrive one at a time, each pass reads what it needs from the API server and from OpenStack,
  and may fail or be repeated at any point.

  \<^bold>\<open>How it is modelled.\<close> Every Go function is a function of the same name over the records of
  \<open>Api_Types\<close>. Code that is not in the repository (controller-runtime, client-go, gophercloud, the API
  server, OpenStack, the file system, the clock) is a parameter, the record \<open>env\<close> of \<open>Environment\<close>: its
  functions see the history of all calls made so far, so that any server behaviour, with any other
  clients in between, is an instance. A call returns its answer and appends one event; a function with
  effects has type \<open>'a io\<close>, a state monad over that history. Go errors are values of the type \<open>error\<close>,
  every early return and every ignored error is a branch. What the operator relies on of the libraries
  is stated as predicates (\<open>backoff_spec\<close>, \<open>conflict_spec\<close>, \<open>retry_spec\<close>, \<open>finalizer_spec\<close>, \<open>range_spec\<close>), which appear as
  hypotheses and are shown satisfiable by \<open>ref_library\<close> and the environments of \<open>Sample_World\<close>.

  \<^bold>\<open>The theories.\<close>
  \<^item> \<open>Prelude\<close>: Go strings and nil-able maps, computations that emit events, the rules of \<open>emits\<close>, and
    the locale \<open>trace_prop\<close> of trace predicates closed under concatenation.
  \<^item> \<open>Api_Types\<close>: \<open>api/v1alpha1\<close> and the fields of the Kubernetes and gophercloud types that are used.
  \<^item> \<open>Environment\<close>: the parameters, the calls, the library hypotheses; the locale \<open>audited\<close> (trace
    predicates that calls without effect on OpenStack cannot break) and the locale \<open>retried\<close> (the
    contract between a closure and the exponential backoff, and what the whole loop then guarantees).
  \<^item> \<open>Openstack_Common\<close>: \<open>pkg/openstack/constants.go\<close>, \<open>common.go\<close>: ownership tags, guarded deletion,
    search by tags.
  \<^item> \<open>Go_Net\<close>: the parts of Go's package \<open>net\<close> the operator calls, with the bits of an address as the
    specification of \<open>Contains\<close>.
  \<^item> \<open>Sample_World\<close>: a concrete environment, in which the witnesses evaluate the definitions.
  \<^item> \<open>Openstack_Client\<close>: \<open>pkg/openstack/\<close> \<open>interfaces.go\<close>, \<open>client.go\<close>, \<open>network.go\<close>, \<open>port.go\<close>,
    \<open>floatingip.go\<close>. The interface \<open>Client\<close> is a record; its contract is the locale \<open>audited_client\<close>,
    interpreted on \<open>ClientImpl\<close>, and \<open>audited_impl\<close> collects it for all clients \<open>NewClient\<close> can return.
  \<^item> \<open>Controller_Utils\<close>: \<open>internal/controller/utils.go\<close>.
  \<^item> \<open>Resource_Cleanup\<close>: \<open>internal/controller/resource_cleanup.go\<close> and the forced finalization of
    \<open>utils.go\<close>.
  \<^item> \<open>Service_Handler\<close>: \<open>internal/controller/service_handler.go\<close> and the predicate of
    \<open>SetupWithManager\<close>.
  \<^item> \<open>Reconciler\<close>: \<open>internal/controller/openstackloadbalancer_controller.go\<close>.
  \<^item> \<open>Openstack_Store\<close>: an OpenStack that keeps what it is told, and what a cleanup leaves in it.
  \<^item> \<open>Finalization\<close>: what the cleanup and finalization of a service achieve when no call fails, and the
    life of a resource from its creation to the last cleanup.
  \<^item> \<open>Call_Bounds\<close>: the number of calls of every function of the reconciler.
  \<^item> \<open>Cluster\<close>, \<open>Convergence\<close>: the state of API server and OpenStack as the history determines it, reliable
    servers, and the passes of the reconciler against them.
  \<^item> \<open>Go_Memory\<close>, \<open>Deep_Copy\<close>: a heap with Go's slices and \<open>append\<close>, and over it the generated copy
    functions, \<open>api/v1alpha1/zz_generated.deepcopy.go\<close>.
  \<^item> \<open>Go_Flags\<close>, \<open>Manager_Setup\<close>: Go's flag parser and \<open>filepath.Join\<close>, and over them \<open>cmd/main.go\<close>, the
    registration of the types, and \<open>SetupWithManager\<close>. The parameter is the record \<open>setup_env\<close>.
  \<^item> this theory: runs of the whole operator as a transition system, and the invariants of all runs.

  \<^bold>\<open>What is shown.\<close>
  \<^item> Runs: nothing is ever deleted in OpenStack unless the call right before read the tags of that
    very resource and did not find the ownership tag missing; whatever is created is tagged by the
    next call with the tags of a service.
  \<^item> The OpenStack client: the tags identify the service; the search by tags returns exactly the tagged
    resources; a deletion reports nil exactly when OpenStack said the resource is gone; network
    detection returns the first covering subnet, and covering means equal leading bits; clients come
    from complete credentials and a successful authentication; which certificates are trusted.
  \<^item> Updates: each of the five retried updates makes at most ten calls, writes only what it means to
    on top of a fresh read, and reports success only for a reason; conditions behave as a map.
  \<^item> Cleanup and finalizers: a cleanup that reports completion saw every selected resource gone, with
    floating IPs before ports; when a finalizer is given up, and when it is given up by force; a load
    balancer loses its finalizer only after the cleanup of its live services. What such a write may change
    is stated over the records and literal names, not over the functions that build it. A finalization in which no
    call fails finishes the service and leaves nothing in the store.
  \<^item> Termination: a pass makes at most \<open>6 n\<^sup>2 + (62 + r) n + 40 + r\<close> calls for lists of at most \<open>n\<close>
    elements and \<open>r\<close> retries on conflict, whatever the servers answer.
  \<^item> Creation: only for services that carry the finalizer, at most one port and one floating IP per pass;
    what is created is found again by cleanup, and against a store it does not survive it.
  \<^item> Convergence: against reliable servers six passes serve every eligible service, from any state,
    and the last pass asks for no other.
  \<^item> Memory: the copy functions return equal objects that share nothing with the original, which is
    why all other theories may treat Kubernetes objects as values.
  \<^item> Start: the manager is started last, after every other call succeeded; which TLS configuration the
    two servers get; command lines can express every setting.
  \<^item> Limits of the code, proved as theorems: selection by substring, forced removal of all finalizers
    of an annotated service, requests dropped for some names, a load balancer reported ready too early
    and never unready again, TLS options in a shared array.

  \<^bold>\<open>Bounds.\<close> There is no fuel: loops over slices are structural, retries are bounded by the number of
  steps of the backoff (five in \<open>RetryBackoff\<close>), the flag parser consumes an argument per step, and all
  definitions are total. The bound of six passes in \<open>Convergence\<close> is one for the finalizer of the load
  balancer, four for a service (finalizer, stale port, stale floating IP, and the pass that serves it),
  and one that finds nothing to do. Integers are unbounded where the code counts or holds times; address
  bytes are 8-bit words. \<open>strings.ToLower\<close> is modelled on ASCII.

  \<^bold>\<open>What is not modelled.\<close> Log messages, the context argument and timeouts; waiting times between
  attempts; the inside of controller-runtime, client-go and gophercloud; the testify mock of the client,
  tests, and deployment files. The work queue of controller-runtime is modelled by letting a run process
  any request at any time.

  \<^bold>\<open>Plan.\<close> Still open: convergence of deletions over whole requests against the servers of
  \<open>Cluster\<close>, two operators at work on the same objects, and the mock client as a second instance of
  \<open>audited_client\<close>.
\<close>

section \<open>Runs of the operator\<close>

text \<open>
  The histories the operator can produce: it handles any request at any time, and maps the events of
  services its predicate lets through to requests. Every environment, that is every behaviour of the
  servers, is allowed.
\<close>

inductive operator_run :: "env \<Rightarrow> history \<Rightarrow> bool" for E :: env where
  start: "operator_run E []"
| reconcile:
    "operator_run E h \<Longrightarrow> run_state (Reconcile E req) h = (res, h') \<Longrightarrow> operator_run E h'"
| service_event:
    "operator_run E h \<Longrightarrow> servicePredicate E obj \<Longrightarrow>
       run_state (findOpenStackLBsForService E obj) h = (reqs, h') \<Longrightarrow> operator_run E h'"

text \<open>A contract every client keeps is an invariant of all runs.\<close>

context audited_impl begin

lemma operator_run_safe:
  assumes "operator_run E h" and "retry_spec (lib E)"
  shows "P h"
  using assms(1)
proof (induction rule: operator_run.induct)
  case start
  show ?case by (rule P_Nil)
next
  case (reconcile h req res h')
  from safe_Reconcile [OF assms(2)] reconcile.hyps(2) obtain ev where "h' = h @ ev" and "P ev"
    by (rule emitsD)
  with reconcile.IH show ?case by (simp add: P_append)
next
  case (service_event h obj reqs h')
  from safe_findOpenStackLBsForService service_event.hyps(3) obtain ev where "h' = h @ ev" and "P ev"
    by (rule emitsD)
  with service_event.IH show ?case by (simp add: P_append)
qed

end

section \<open>Deletions\<close>

text \<open>
  C1: in every run of the operator, every deletion of a port or floating IP is directly preceded by
  the call that read the tags of that same resource through the same client, and that call either
  failed or returned the ownership tag.
\<close>

theorem operator_deletes_only_owned:
  assumes "retry_spec (lib E)" and "operator_run E (h @ e # h')"
    and "e = EPortDelete c i r \<and> rt = ''ports'' \<or> e = EFipDelete c i r \<and> rt = ''floatingips''"
  shows "\<exists>h0 tags. h = h0 @ [ETagsList c rt i tags]
           \<and> (\<forall>ts. tags = Inr ts \<longrightarrow> ''managed-by=openstack-lb-operator'' \<in> set ts)"
proof -
  have "delete_guarded (h @ e # h')"
    by (rule guarded_env.operator_run_safe [OF assms(2,1)])
  then have "delete_ok (if h = [] then None else Some (last h)) e"
    by (rule delete_guarded_split)
  with assms(3) have "owner_check c rt i (if h = [] then None else Some (last h))"
    by (auto simp: ResourceTypePort_def ResourceTypeFloatingIP_def)
  then obtain tags where "h \<noteq> []" and "last h = ETagsList c rt i tags"
    and "\<forall>ts. tags = Inr ts \<longrightarrow> isResourceOwnedByOperator ts"
    by (auto simp: owner_check_iff split: if_splits)
  moreover from this have "h = butlast h @ [ETagsList c rt i tags]"
    by (metis append_butlast_last_id)
  ultimately show ?thesis
    by (auto simp: isResourceOwnedByOperator_iff TagManagedBy_def TagManagedByValue_def)
qed

lemma reconcile_sample:
  "\<exists>ev ev'. run_state (Reconcile dying_env (serviceRequest sample_dying)) h
     = ((noRequeue, None), h @ ev @ cleanup_trace @ ev')"
proof -
  let ?g = "EGetSvc (svcKey sample_dying) (Inr sample_dying)"
  have n: "svcName sample_dying = ''web''" "svcNamespace sample_dying = ''default''"
    by (simp_all add: sample_dying_def sample_meta_def)
  have sp: "strings_Split (nnName (serviceRequest sample_dying)) serviceHandlerPrefix = [[], ''web'']"
    using strings_Split_prefix [of serviceHandlerPrefix "''web''"] strings_Split_single [of serviceHandlerPrefix "''web''"]
    by (simp add: serviceRequest_def n serviceHandlerPrefix_def)
  have k: "\<lparr>nnName = ''web'', nnNamespace = nnNamespace (serviceRequest sample_dying)\<rparr> = svcKey sample_dying"
    by (simp add: svcKey_def serviceRequest_def n)
  have hp: "strings_HasPrefix (nnName (serviceRequest sample_dying)) serviceHandlerPrefix"
    by (simp add: strings_HasPrefix_def serviceRequest_def)
  have t: "svcTerminating sample_dying" by (simp add: sample_dying_def IsZero_def)
  have g: "k8s_GetSvc (k8s dying_env) h k = Inr sample_dying" for h k by simp
  obtain e1 where "run_state (getOpenStackClientFromService dying_env sample_dying) (h @ [?g])
      = (Inr (ClientImpl dying_env sample_net), (h @ [?g]) @ e1)"
    using client_sample by blast
  moreover obtain e2 where "run_state (HandleServiceFinalizationWithForce dying_env (ClientImpl dying_env sample_net) sample_dying)
      ((h @ [?g]) @ e1) = ((False, None), ((h @ [?g]) @ e1) @ cleanup_trace @ e2)"
    using finalize_sample by blast
  ultimately show ?thesis
    by (intro exI [of _ "?g # e1"] exI [of _ e2])
      (simp add: Reconcile_def reconcileService_def sp k hp GetSvc_def g t reconcileDeletedService_def
        del: dying_env_simps)
qed

theorem operator_deletes_only_owned_witness:
  "\<exists>h h'. operator_run dying_env (h @ EPortDelete sample_net ''p1'' None # h')
    \<and> (\<exists>h0 tags. h = h0 @ [ETagsList sample_net ''ports'' ''p1'' tags]
           \<and> (\<forall>ts. tags = Inr ts \<longrightarrow> ''managed-by=openstack-lb-operator'' \<in> set ts))"
proof -
  obtain ev ev' where r: "run_state (Reconcile dying_env (serviceRequest sample_dying)) []
     = ((noRequeue, None), ev @ cleanup_trace @ ev')"
    using reconcile_sample [of "[]"] by auto
  have "operator_run dying_env (ev @ cleanup_trace @ ev')"
    by (rule operator_run.reconcile [OF operator_run.start r])
  then have run: "operator_run dying_env ((ev @ butlast cleanup_trace) @ EPortDelete sample_net ''p1'' None # ev')"
    by (simp add: cleanup_trace_def)
  have res: "\<exists>h0 tags. ev @ butlast cleanup_trace = h0 @ [ETagsList sample_net ''ports'' ''p1'' tags]
      \<and> (\<forall>ts. tags = Inr ts \<longrightarrow> ''managed-by=openstack-lb-operator'' \<in> set ts)"
    by (rule operator_deletes_only_owned [OF _ run, where r = None]) simp_all
  show ?thesis by (rule exI, rule exI, rule conjI, rule run, rule res)
qed

section \<open>Creations\<close>

lemma create_tagged_split:
  "create_tagged E (xs @ e # ys) \<Longrightarrow> create_tagged E (e # ys)"
  by (induction E xs rule: create_tagged.induct) auto

text \<open>
  C2: in every run of the operator, every creation of a port or floating IP that succeeded is directly
  followed by the call that sets the tags of the new resource, among them the ownership tag and the
  tags of the namespace and name of a service.
\<close>

theorem operator_tags_created:
  assumes "retry_spec (lib E)" and "range_spec (sys E)" and "operator_run E (h @ e # h')"
    and "e = EPortCreate c popts (Inr p) \<and> rt = ''ports'' \<and> i = Port_ID p
         \<or> e = EFipCreate c fopts (Inr f) \<and> rt = ''floatingips'' \<and> i = FIP_ID f"
  shows "\<exists>tags r h1 ns name. h' = ETagsReplace c rt i tags r # h1
     \<and> isResourceOwnedByOperator tags \<and> isResourceForService tags ns name"
proof -
  have "create_tagged E (e # h')"
    by (rule create_tagged_split, rule tagged_env.operator_run_safe [OF assms(3,1)])
  with assms(4) have "tags_follow E c rt i h'"
    by (auto simp: ResourceTypePort_def ResourceTypeFloatingIP_def)
  then obtain tags r h1 where "h' = ETagsReplace c rt i tags r # h1" and "operator_tags E rt tags"
    by (cases "(E, c, rt, i, h')" rule: tags_follow.cases) auto
  then show ?thesis
    by (auto simp: operator_tags_def isResourceOwnedByOperator_iff isResourceForService_iff
        set_convertMapToTags [OF assms(2)] resource_tags_def)
qed

lemma reconcile_create_sample:
  "\<exists>ev ev'. run_state (Reconcile adopted_env (lbKey known_lb)) [] = ((noRequeue, None), ev @ created_trace @ ev')"
proof -
  have h: "\<not> strings_HasPrefix (nnName (lbKey known_lb)) serviceHandlerPrefix" "initConditions known_lb = known_lb"
   "ContainsFinalizer ref_library (lbFinalizers known_lb) OpenstackLBFinalizer" "IsZero (DeletionTimestamp (lbMeta known_lb))"
    by (simp_all add: strings_HasPrefix_def serviceHandlerPrefix_def lbKey_def known_lb_def sample_meta_def initConditions_def ref_library_def IsZero_def)
  have e: "eligibleService known_lb adopted_svc" "hd (Ingress adopted_svc) = ''10.0.0.5''"
    by (simp_all add: eligibleService_def isServiceMatchingLBClass_def known_lb_def adopted_svc_def sample_svc_def sample_lb_def sample_meta_def IsZero_def)
  let ?h = "[EGetLB (lbKey known_lb) (Inr known_lb)]"
  have "\<exists>ev. run_state (NewClient adopted_env sn sns) h = (Inr (ClientImpl adopted_env sample_net), h @ ev)" for sn sns h
    by (rule NewClient_sample) simp_all
  then obtain e1 where e1: "run_state (getOpenStackClient adopted_env known_lb) ?h = (Inr (ClientImpl adopted_env sample_net), ?h @ e1)"
    unfolding getOpenStackClient_def by blast
  let ?h2 = "(?h @ e1) @ [EListSvcs (Inr [adopted_svc])]"
  obtain lb e2 where p: "run_state (processService adopted_env known_lb adopted_svc (ClientImpl adopted_env sample_net) ''10.0.0.5'') ?h2
     = (((False, None), lb), ?h2 @ created_trace @ e2)"
    using process_sample by blast
  have s: "\<exists>lb' e. run_state (Reconcile_status adopted_env st) h = (lb', h @ e)" for st h
    by (simp add: Reconcile_status_def setCondition_run Let_def split: option.split)
  have u: "\<exists>lb' e. run_state (updateStatusWithRetry adopted_env lb) h = ((None, lb'), h @ e)" for lb h
    by (simp add: updateStatusWithRetry_def backoff_first call_defs)
  let ?st = "\<lparr>ls_lb = lb, processedAtLeastOne = True, lastError = None, ls_needsRequeue = False\<rparr>"
  obtain lb' e3 where q: "run_state (Reconcile_status adopted_env ?st) (?h2 @ created_trace @ e2) = (lb', (?h2 @ created_trace @ e2) @ e3)"
    using s by blast
  obtain lb2 e4 where "run_state (updateStatusWithRetry adopted_env lb') ((?h2 @ created_trace @ e2) @ e3) = ((None, lb2), ((?h2 @ created_trace @ e2) @ e3) @ e4)"
    using u by blast
  with e1 p q show ?thesis
    by (intro exI [of _ "?h2"] exI [of _ "e2 @ e3 @ e4"])
      (simp add: Reconcile_def GetLB_def h reconcileLB_def ListSvcs_def Reconcile_loop_def e)
qed

theorem operator_tags_created_witness:
  "\<exists>popts h h'. operator_run adopted_env (h @ EPortCreate sample_net popts (Inr sample_port) # h')
    \<and> (\<exists>tags r h1 ns name. h' = ETagsReplace sample_net ''ports'' (Port_ID sample_port) tags r # h1
     \<and> isResourceOwnedByOperator tags \<and> isResourceForService tags ns name)"
proof -
  obtain ev ev' where r: "run_state (Reconcile adopted_env (lbKey known_lb)) [] = ((noRequeue, None), ev @ created_trace @ ev')"
    using reconcile_create_sample by blast
  have run: "operator_run adopted_env (ev @ hd created_trace # tl created_trace @ ev')"
    using operator_run.reconcile [OF operator_run.start r] by (simp add: created_trace_def)
  obtain popts where hd: "hd created_trace = EPortCreate sample_net popts (Inr sample_port)" by (simp add: created_trace_def)
  from run hd have run': "operator_run adopted_env (ev @ EPortCreate sample_net popts (Inr sample_port) # tl created_trace @ ev')"
    by simp
  have res: "\<exists>tags r h1 ns name. tl created_trace @ ev' = ETagsReplace sample_net ''ports'' (Port_ID sample_port) tags r # h1
     \<and> isResourceOwnedByOperator tags \<and> isResourceForService tags ns name"
    by (rule operator_tags_created [OF _ _ run', where popts = popts and p = sample_port]) simp_all
  show ?thesis by (rule exI, rule exI, rule exI, rule conjI, rule run', rule res)
qed

end
